theory Spec2Isabelle
  imports Main "HOL-Library.Multiset"
begin

section \<open>Name paths\<close>

text \<open>
  An \<open>InternalNamePath\<close> is an array of strings and numbers.
\<close>

datatype seg = Name string | Index nat

type_synonym namePath = "seg list"

fun string_of_nat :: "nat \<Rightarrow> string" where
  "string_of_nat n =
     (if n < 10 then [char_of (48 + n)]
      else string_of_nat (n div 10) @ [char_of (48 + n mod 10)])"

declare string_of_nat.simps [simp del]

fun seg_str :: "seg \<Rightarrow> string" where
  "seg_str (Name s) = s"
| "seg_str (Index n) = string_of_nat n"

text \<open>\<open>namePath.join('.')\<close>\<close>

fun join_dot :: "string list \<Rightarrow> string" where
  "join_dot [] = []"
| "join_dot [s] = s"
| "join_dot (s # t # ss) = s @ ''.'' @ join_dot (t # ss)"

section \<open>Rule engine (utils/validateUtil)\<close>

type_synonym message = string

text \<open>
  What one call of a validator function does, as its caller sees it: it throws
  synchronously, it returns a promise (fulfilled, or rejected with a reason), it returns
  no promise and reports through the callback (with or without an error), or it returns no
  promise and never reports. An empty reason stands for a falsy one.
\<close>

datatype behaviour =
    Raises
  | ReturnsPromise "message option"
  | CallsBack "message option"
  | Silent

text \<open>
  A \<open>RuleObject\<close>. A field that may be absent is an option. \<open>others\<close> holds the
  remaining own properties of the object (\<open>min\<close>, \<open>len\<close>, \<open>message\<close>,
  \<open>required\<close>, ...), each with the string JavaScript makes of its value, which is what a
  message template gets of it; \<open>validateTrigger\<close> is the list \<open>toArray\<close> makes of the
  field.
\<close>

datatype 'v rule = Rule
  (warningOnly: "bool option")
  (ruleIndex: "nat option")
  (validator: "('v \<Rightarrow> behaviour) option")
  (rtype: "string option")
  (defaultField: "'v rule option")
  (enum: "string list option")
  (others: "(string \<times> string) list")
  (validateTrigger: "string list option")

text \<open>\<open>!!w\<close> for an optional boolean.\<close>

definition truthy :: "bool option \<Rightarrow> bool" where
  "truthy w = (w = Some True)"

definition CODE_LOGIC_ERROR :: message where
  "CODE_LOGIC_ERROR = ''CODE_LOGIC_ERROR''"

subsection \<open>replaceMessage\<close>

text \<open>\<open>\w\<close> of the regular expression: letters, digits and the underscore.\<close>

definition isWordChar :: "char \<Rightarrow> bool" where
  "isWordChar c =
     (let n = (of_char c :: nat)
      in (48 \<le> n \<and> n \<le> 57) \<or> (65 \<le> n \<and> n \<le> 90) \<or> (97 \<le> n \<and> n \<le> 122) \<or> n = 95)"

text \<open>
  \<open>template.replace(/\$\{\w+\}/g, str => kv[str.slice(2, -1)])\<close>: every match of
  \<open>${key}\<close> is replaced by the string made of \<open>kv[key]\<close>. The argument \<open>kv\<close> is the
  property lookup of the object, own and inherited properties alike, each with the string
  JavaScript makes of its value; a key without a property is rendered as \<open>undefined\<close>, the
  string substituted for an undefined replacement.
\<close>

function replaceMessage :: "string \<Rightarrow> (string \<rightharpoonup> string) \<Rightarrow> string" where
  "replaceMessage [] kv = []"
| "replaceMessage (c # cs) kv =
     (case cs of
        [] \<Rightarrow> [c]
      | d # ds \<Rightarrow>
          (let key = takeWhile isWordChar ds; rest = dropWhile isWordChar ds in
           if c = CHR ''$'' \<and> d = CHR ''{'' \<and> key \<noteq> [] \<and>
              (case rest of [] \<Rightarrow> False | e # _ \<Rightarrow> e = CHR ''}'')
           then (case kv key of None \<Rightarrow> ''undefined'' | Some s \<Rightarrow> s) @ replaceMessage (tl rest) kv
           else c # replaceMessage cs kv))"
  by pat_completeness auto
termination
proof (relation "measure (\<lambda>(s, kv). length s)")
  show "wf (measure (\<lambda>(s, kv). length s))" by simp
next
  fix c :: char and cs :: string and kv :: "string \<rightharpoonup> string" and d ds key rest
  assume cs: "cs = d # ds" and rest: "rest = dropWhile isWordChar ds"
  have "length (tl rest) \<le> length ds"
    using length_dropWhile_le [of isWordChar ds] rest by simp
  with cs show "((tl rest, kv), c # cs, kv) \<in> measure (\<lambda>(s, kv). length s)" by simp
next
  fix c :: char and cs :: string and kv :: "string \<rightharpoonup> string" and d ds key rest
  show "((cs, kv), c # cs, kv) \<in> measure (\<lambda>(s, kv). length s)" by simp
qed

subsection \<open>Promises\<close>

text \<open>
  A promise: still pending (for ever), resolved with a value or rejected with a reason.
\<close>

datatype ('a, 'e) promise = Pending | Resolved 'a | Rejected 'e

definition isRejected :: "('a, 'e) promise \<Rightarrow> bool" where
  "isRejected p = (case p of Rejected x \<Rightarrow> True | _ \<Rightarrow> False)"

definition isResolved :: "('a, 'e) promise \<Rightarrow> bool" where
  "isResolved p = (case p of Resolved x \<Rightarrow> True | _ \<Rightarrow> False)"

text \<open>The value of a resolved promise.\<close>

definition fulfilment :: "('a, 'e) promise \<Rightarrow> 'a option" where
  "fulfilment p = (case p of Resolved x \<Rightarrow> Some x | _ \<Rightarrow> None)"

text \<open>
  \<open>p.then(f)\<close> for a function \<open>f\<close> that returns a plain value: a rejection passes
  through.
\<close>

definition thenMap :: "('a \<Rightarrow> 'b) \<Rightarrow> ('a, 'e) promise \<Rightarrow> ('b, 'e) promise" where
  "thenMap f p =
     (case p of Pending \<Rightarrow> Pending | Resolved x \<Rightarrow> Resolved (f x) | Rejected e \<Rightarrow> Rejected e)"

text \<open>
  \<open>Promise.all\<close>: rejected as soon as one of the promises is, also while others are
  pending; otherwise pending while one of them is; otherwise resolved with the list of the
  values. Of several rejections the one of the first promise of the list is taken.
\<close>

fun promiseAll :: "('a, 'e) promise list \<Rightarrow> ('a list, 'e) promise" where
  "promiseAll [] = Resolved []"
| "promiseAll (p # ps) =
     (case p of
        Rejected e \<Rightarrow> Rejected e
      | Pending \<Rightarrow> (case promiseAll ps of Rejected e \<Rightarrow> Rejected e | _ \<Rightarrow> Pending)
      | Resolved x \<Rightarrow> thenMap (\<lambda>xs. x # xs) (promiseAll ps))"

text \<open>
  The error of the language that the rule engine can raise: a \<open>TypeError\<close>, for the call
  of a method that the value does not have.
\<close>

datatype jsError = TypeError

subsection \<open>validateRule\<close>

text \<open>
  The \<open>async-validator\<close> library is not part of the repository: it is a parameter. Given
  the field name, the value and the (cloned) rule, \<open>validator.validate\<close> returns a promise
  that is fulfilled, is rejected with an object whose \<open>errors\<close> carry the given messages,
  or never settles.
\<close>

datatype libResult = Fulfilled | RejectedWith "message list" | NeverSettles

type_synonym 'v asyncValidator = "string \<Rightarrow> 'v \<Rightarrow> 'v rule \<Rightarrow> libResult"

text \<open>
  The wrapper \<open>validateRule\<close> puts around \<open>cloneRule.validator\<close>:
  \<open>try { return originValidator(...args) } catch (error) { console.error(error);
  return Promise.reject(CODE_LOGIC_ERROR) }\<close>.
\<close>

definition guardValidator :: "('v \<Rightarrow> behaviour) \<Rightarrow> 'v \<Rightarrow> behaviour" where
  "guardValidator originValidator val =
     (case originValidator val of
        Raises \<Rightarrow> ReturnsPromise (Some CODE_LOGIC_ERROR)
      | ReturnsPromise r \<Rightarrow> ReturnsPromise r
      | CallsBack a \<Rightarrow> CallsBack a
      | Silent \<Rightarrow> Silent)"

text \<open>
  \<open>cloneRule\<close>, the rule the library is given: a copy of the rule without \<open>ruleIndex\<close>,
  with the validator wrapped, and without \<open>defaultField\<close> when the type is \<open>array\<close>.
\<close>

fun cloneRule :: "'v rule \<Rightarrow> 'v rule" where
  "cloneRule (Rule w i v t df en ot vt) =
     Rule w None (map_option guardValidator v) t (if t = Some ''array'' then None else df) en ot vt"

text \<open>
  \<open>try { await Promise.resolve(validator.validate(...)) } catch (errObj) { ... }\<close>: the
  messages of \<open>errObj.errors\<close>, with \<open>CODE_LOGIC_ERROR\<close> replaced by \<open>messages.default\<close>
  (the parameter \<open>dflt\<close>, the \<open>default\<close> entry of the merged message table). \<open>None\<close>: the
  promise never settles.
\<close>

definition libErrors ::
  "'v asyncValidator \<Rightarrow> message \<Rightarrow> string \<Rightarrow> 'v \<Rightarrow> 'v rule \<Rightarrow> message list option" where
  "libErrors lib dflt name val clone =
     (case lib name val clone of
        NeverSettles \<Rightarrow> None
      | Fulfilled \<Rightarrow> Some []
      | RejectedWith ms \<Rightarrow> Some (map (\<lambda>m. if m = CODE_LOGIC_ERROR then dflt else m) ms))"

text \<open>
  The substitution context
  \<open>{ ...rule, name, enum: (rule.enum || []).join(', '), ...messageVariables }\<close>, as the
  lookup \<open>kv[key]\<close> sees it: later entries win, and a key that the object does not have is
  looked up in \<open>Object.prototype\<close> (\<open>toString\<close>, \<open>constructor\<close>, ...). Every
  property is given with the string JavaScript makes of its value: a boolean as \<open>true\<close> or
  \<open>false\<close>, a number in decimal, an array as its elements joined by commas, a plain object
  as \<open>[object Object]\<close>, a function as its source text. The source text of a function and
  the properties of \<open>Object.prototype\<close> are not in the repository; they are the parameters
  \<open>functionText\<close> and \<open>inherited\<close>. The \<open>enum\<close> of the rule is always overridden.
\<close>

fun join_with :: "string \<Rightarrow> string list \<Rightarrow> string" where
  "join_with sep [] = []"
| "join_with sep [s] = s"
| "join_with sep (s # t # ss) = s @ sep @ join_with sep (t # ss)"

definition ownProperty :: "string \<Rightarrow> string option \<Rightarrow> (string \<rightharpoonup> string)" where
  "ownProperty key v = (case v of None \<Rightarrow> Map.empty | Some x \<Rightarrow> [key \<mapsto> x])"

definition ruleFields :: "(('v \<Rightarrow> behaviour) \<Rightarrow> string) \<Rightarrow> 'v rule \<Rightarrow> (string \<rightharpoonup> string)" where
  "ruleFields functionText r =
     (map_of (others r)
       ++ ownProperty ''type'' (rtype r)
       ++ ownProperty ''warningOnly'' (map_option (\<lambda>w. if w then ''true'' else ''false'') (warningOnly r))
       ++ ownProperty ''ruleIndex'' (map_option string_of_nat (ruleIndex r))
       ++ ownProperty ''validator'' (map_option functionText (validator r))
       ++ ownProperty ''defaultField'' (map_option (\<lambda>_. ''[object Object]'') (defaultField r))
       ++ ownProperty ''validateTrigger'' (map_option (join_with '','') (validateTrigger r)))"

definition messageContext ::
  "(('v \<Rightarrow> behaviour) \<Rightarrow> string) \<Rightarrow> (string \<rightharpoonup> string) \<Rightarrow>
   'v rule \<Rightarrow> string \<Rightarrow> (string \<times> string) list \<Rightarrow> (string \<rightharpoonup> string)" where
  "messageContext functionText inherited r name messageVariables =
     (inherited
       ++ ruleFields functionText r
       ++ [''name'' \<mapsto> name]
       ++ [''enum'' \<mapsto> join_with '', '' (case enum r of None \<Rightarrow> [] | Some es \<Rightarrow> es)]
       ++ map_of messageVariables)"

text \<open>
  \<open>validateRule(name, value, rule, options, messageVariables)\<close>, an \<open>async\<close> function:
  its promise is pending for ever when the library never settles, and it is rejected by what
  the body throws. \<open>elems\<close> reads an array value as the list of its elements and is
  \<open>None\<close> on any other value: there \<open>(value as StoreValue[]).map\<close> is the call of a
  method the value does not have.
\<close>

fun validateRule ::
  "'v asyncValidator \<Rightarrow> message \<Rightarrow> ('v \<Rightarrow> 'v list option) \<Rightarrow>
   (('v \<Rightarrow> behaviour) \<Rightarrow> string) \<Rightarrow> (string \<rightharpoonup> string) \<Rightarrow> (string \<times> string) list \<Rightarrow>
   string \<Rightarrow> 'v \<Rightarrow> 'v rule \<Rightarrow> (message list, jsError) promise" where
  "validateRule lib dflt elems functionText inherited messageVariables name val (Rule w i v t df en ot vt) =
     (case libErrors lib dflt name val (cloneRule (Rule w i v t df en ot vt)) of
        None \<Rightarrow> Pending
      | Some result \<Rightarrow>
          (case df of
             Some subRuleField \<Rightarrow>
               if result = [] \<and> t = Some ''array''
               then (case elems val of
                       None \<Rightarrow> Rejected TypeError
                     | Some subValues \<Rightarrow>
                         thenMap concat
                           (promiseAll
                              (map (\<lambda>(k, subValue).
                                      validateRule lib dflt elems functionText inherited messageVariables
                                        (name @ ''.'' @ string_of_nat k) subValue subRuleField)
                                 (enumerate 0 subValues))))
               else Resolved (map (\<lambda>e. replaceMessage e
                                 (messageContext functionText inherited (Rule w i v t df en ot vt)
                                    name messageVariables))
                            result)
           | None \<Rightarrow>
               Resolved (map (\<lambda>e. replaceMessage e
                            (messageContext functionText inherited (Rule w i v t df en ot vt)
                               name messageVariables))
                       result)))"

subsection \<open>validateRules\<close>

text \<open>
  The wrapper \<open>validateRules\<close> puts around a rule's \<open>validator\<close>: it has no
  \<open>try\<close>, so a throw of the user's function passes through; a returned promise takes
  priority and is turned into a call of the callback (\<open>callback()\<close> on fulfilment,
  \<open>callback(err || ' ')\<close> on rejection); a callback-style validator has its callback
  forwarded a tick later.
\<close>

definition wrapValidator :: "('v \<Rightarrow> behaviour) \<Rightarrow> 'v \<Rightarrow> behaviour" where
  "wrapValidator originValidatorFunc val =
     (case originValidatorFunc val of
        Raises \<Rightarrow> Raises
      | ReturnsPromise None \<Rightarrow> CallsBack None
      | ReturnsPromise (Some err) \<Rightarrow> CallsBack (Some (if err = [] then '' '' else err))
      | CallsBack a \<Rightarrow> CallsBack a
      | Silent \<Rightarrow> Silent)"

text \<open>\<open>{ ...currentRule, ruleIndex }\<close> with the validator replaced if there is one.\<close>

fun fillRule :: "'v rule \<Rightarrow> nat \<Rightarrow> 'v rule" where
  "fillRule (Rule w i v t df en ot vt) k =
     Rule w (Some k) (map_option wrapValidator v) t df en ot vt"

definition annotateRules :: "'v rule list \<Rightarrow> 'v rule list" where
  "annotateRules rules = map (\<lambda>(currentRule, k). fillRule currentRule k) (zip rules [0..<length rules])"

text \<open>
  The comparator given to \<open>sort\<close>. Every rule it is called on has been given a
  \<open>ruleIndex\<close>; \<open>indexOf\<close> reads it.
\<close>

definition indexOf :: "'v rule \<Rightarrow> int" where
  "indexOf r = (case ruleIndex r of None \<Rightarrow> 0 | Some i \<Rightarrow> int i)"

definition compareRules :: "'v rule \<Rightarrow> 'v rule \<Rightarrow> int" where
  "compareRules a b =
     (if truthy (warningOnly a) = truthy (warningOnly b) then indexOf a - indexOf b
      else if truthy (warningOnly a) then 1
      else - 1)"

text \<open>
  \<open>Array.prototype.sort\<close> with a comparator, as a stable insertion sort: an element goes
  before the first one it does not compare greater than.
\<close>

fun insertBy :: "('a \<Rightarrow> 'a \<Rightarrow> int) \<Rightarrow> 'a \<Rightarrow> 'a list \<Rightarrow> 'a list" where
  "insertBy cmp x [] = [x]"
| "insertBy cmp x (y # ys) = (if cmp x y \<le> 0 then x # y # ys else y # insertBy cmp x ys)"

definition sortBy :: "('a \<Rightarrow> 'a \<Rightarrow> int) \<Rightarrow> 'a list \<Rightarrow> 'a list" where
  "sortBy cmp xs = foldr (insertBy cmp) xs []"

definition filledRules :: "'v rule list \<Rightarrow> 'v rule list" where
  "filledRules rules = sortBy compareRules (annotateRules rules)"

text \<open>
  A \<open>RuleError\<close>: \<open>{ errors, rule }\<close>. The summary promise of \<open>validateRules\<close> is
  rejected with a list of them, or with the error a rule evaluation has thrown.
\<close>

datatype 'v ruleError = RuleError (errors: "message list") (rule: "'v rule")

datatype 'v rejection = RuleErrors "'v ruleError list" | Thrown jsError

text \<open>
  The loop of the serial mode, the body of the \<open>async\<close> executor of \<open>new Promise\<close>. The
  second component lists the rules that were evaluated, in order. A rule evaluation that
  never settles leaves the summary promise pending; so does one that is rejected: \<open>await\<close>
  throws inside the executor, whose own promise nobody reads, and neither \<open>resolve\<close> nor
  \<open>reject\<close> is called.
\<close>

fun serialValidate ::
  "('v rule \<Rightarrow> (message list, jsError) promise) \<Rightarrow> 'v rule list \<Rightarrow>
   ('v ruleError list, 'v rejection) promise \<times> 'v rule list" where
  "serialValidate ev [] = (Resolved [], [])"
| "serialValidate ev (r # rs) =
     (case ev r of
        Pending \<Rightarrow> (Pending, [r])
      | Rejected e \<Rightarrow> (Pending, [r])
      | Resolved errs \<Rightarrow>
          if errs \<noteq> [] then (Rejected (RuleErrors [RuleError errs r]), [r])
          else (let (p, evaluated) = serialValidate ev rs in (p, r # evaluated)))"

text \<open>
  \<open>finishOnAllFailed\<close>: \<open>Promise.all\<close> of the rule promises;
  \<open>[].concat(...errorsList)\<close> of a list of objects is that list.
\<close>

definition finishOnAllFailed :: "('e, 'x) promise list \<Rightarrow> ('e list, 'x) promise" where
  "finishOnAllFailed rulePromises = thenMap (\<lambda>errorsList. errorsList) (promiseAll rulePromises)"

text \<open>
  \<open>finishOnFirstFailed\<close>: the \<open>then\<close> callbacks run in the order in which the rule
  promises are resolved; a rule promise that is rejected or stays pending never runs its
  callback and is not counted. The state is the value the new promise was resolved with, if
  it has been (a later \<open>resolve\<close> does nothing), and \<open>count\<close>. The new promise is never
  rejected.
\<close>

definition resolveOnce :: "'a \<Rightarrow> 'a option \<Rightarrow> 'a option" where
  "resolveOnce v settled = (case settled of None \<Rightarrow> Some v | Some w \<Rightarrow> Some w)"

definition firstFailedStep ::
  "nat \<Rightarrow> 'v ruleError list option \<times> nat \<Rightarrow> 'v ruleError \<Rightarrow> 'v ruleError list option \<times> nat" where
  "firstFailedStep n st ruleError =
     (let settled1 = (if errors ruleError \<noteq> [] then resolveOnce [ruleError] (fst st) else fst st);
          count = snd st + 1
      in (if count = n then resolveOnce [] settled1 else settled1, count))"

definition finishOnFirstFailed :: "nat \<Rightarrow> 'v ruleError list \<Rightarrow> ('v ruleError list, 'x) promise" where
  "finishOnFirstFailed n completed =
     (case fst (foldl (firstFailedStep n) (None, 0) completed) of
        None \<Rightarrow> Pending
      | Some v \<Rightarrow> Resolved v)"

text \<open>
  The values of the rule promises that are resolved, in the order in which they are: by the
  time each evaluation takes (\<open>delay\<close>), promises that are resolved together in the order
  they were started.
\<close>

definition completionOrder :: "('v rule \<Rightarrow> nat) \<Rightarrow> ('v rule \<times> ('e, 'x) promise) list \<Rightarrow> 'e list" where
  "completionOrder delay started =
     List.map_filter (\<lambda>p. fulfilment (snd p)) (sort_key (\<lambda>p. delay (fst p)) started)"

datatype validateFirst = VFalse | VTrue | VParallel

text \<open>
  \<open>validateRules(namePath, value, rules, options, validateFirst, messageVariables)\<close>: the
  summary promise, and the rules whose evaluation was started. In the parallel modes
  \<open>.then(errors => Promise.reject(errors))\<close> turns a resolution into a rejection, and a
  rejection of \<open>Promise.all\<close> passes through it.
\<close>

definition validateRules ::
  "'v asyncValidator \<Rightarrow> message \<Rightarrow> ('v \<Rightarrow> 'v list option) \<Rightarrow>
   (('v \<Rightarrow> behaviour) \<Rightarrow> string) \<Rightarrow> (string \<rightharpoonup> string) \<Rightarrow> ('v rule \<Rightarrow> nat) \<Rightarrow>
   namePath \<Rightarrow> 'v \<Rightarrow> 'v rule list \<Rightarrow> validateFirst \<Rightarrow> (string \<times> string) list \<Rightarrow>
   ('v ruleError list, 'v rejection) promise \<times> 'v rule list" where
  "validateRules lib dflt elems functionText inherited delay namePath val rules validateFirst messageVariables =
     (let name = join_dot (map seg_str namePath);
          ev = validateRule lib dflt elems functionText inherited messageVariables name val
      in if validateFirst = VTrue then serialValidate ev (filledRules rules)
         else
           (let rulePromises = map (\<lambda>r. thenMap (\<lambda>errs. RuleError errs r) (ev r)) (filledRules rules);
                finished =
                  (if validateFirst = VParallel
                   then finishOnFirstFailed (length rulePromises)
                          (completionOrder delay (zip (filledRules rules) rulePromises))
                   else finishOnAllFailed rulePromises)
            in (case finished of
                  Resolved errs \<Rightarrow> Rejected (RuleErrors errs)
                | Rejected e \<Rightarrow> Rejected (Thrown e)
                | Pending \<Rightarrow> Pending,
                filledRules rules)))"

subsection \<open>Concrete rules\<close>

text \<open>
  A small stand-in for the library, to run the engine on concrete rules: it calls the
  rule's validator, if there is one, and reports the reason of a rejection or the error
  given to the callback as the one error message.
\<close>

definition exampleLib :: "'v asyncValidator" where
  "exampleLib name val r =
     (case validator r of
        None \<Rightarrow> Fulfilled
      | Some g \<Rightarrow>
          (case g val of
             Raises \<Rightarrow> RejectedWith [''thrown'']
           | ReturnsPromise None \<Rightarrow> Fulfilled
           | ReturnsPromise (Some m) \<Rightarrow> RejectedWith [m]
           | CallsBack None \<Rightarrow> Fulfilled
           | CallsBack (Some m) \<Rightarrow> RejectedWith [m]
           | Silent \<Rightarrow> NeverSettles))"

text \<open>
  Rules whose validator rejects with a message, fulfils, throws (one of them with
  \<open>min: 3\<close> and \<open>validateTrigger: ['onChange', 'onBlur']\<close>), or neither returns a
  promise nor calls back; and a rule of type \<open>array\<close> with a rule for the items.
\<close>

definition failRule :: "message \<Rightarrow> 'v rule" where
  "failRule m = Rule None None (Some (\<lambda>_. ReturnsPromise (Some m))) None None None [] None"

definition passRule :: "'v rule" where
  "passRule = Rule None None (Some (\<lambda>_. ReturnsPromise None)) None None None [] None"

definition throwRule :: "'v rule" where
  "throwRule = Rule None None (Some (\<lambda>_. Raises)) None None None [] None"


definition silentRule :: "'v rule" where
  "silentRule = Rule None None (Some (\<lambda>_. Silent)) None None None [] None"

definition arrayRule :: "'v rule" where
  "arrayRule = Rule None None None (Some ''array'') (Some passRule) None [] None"


section \<open>Store values and name-path utilities (utils/valueUtil, utils/typeUtil)\<close>

text \<open>
  The modules \<open>utils/valueUtil\<close>, \<open>utils/typeUtil\<close> and \<open>utils/cloneDeep\<close> are not
  among the source files; the functions of this section follow the specification.

  A \<open>StoreValue\<close>: \<open>undefined\<close>, a primitive value (coded as a number), or a container
  (object or array) that maps a segment to the value stored under it, with \<open>Undefined\<close>
  where it stores nothing. A container is an object of the language and has an identity:
  \<open>===\<close> and \<open>!==\<close> compare primitive values by value and containers by identity. The
  identity of a container says who made it: the store operations, for the store of a given
  generation and at a given path of it; the store, as a part of a copy it hands out; or the
  caller. With the identity a part of the value, \<open>=\<close> on store values is \<open>===\<close>: two
  containers with the same contents and different identities are different values.
\<close>

datatype ref = Made nat namePath | Copied nat namePath | Given nat

datatype storeValue = Undefined | Atom nat | Obj ref "seg \<Rightarrow> storeValue"

text \<open>A new object \<open>{}\<close>.\<close>

definition emptyObject :: "ref \<Rightarrow> storeValue" where
  "emptyObject r = Obj r (\<lambda>_. Undefined)"

fun contentOf :: "storeValue \<Rightarrow> seg \<Rightarrow> storeValue" where
  "contentOf (Obj r f) = f"
| "contentOf Undefined = (\<lambda>_. Undefined)"
| "contentOf (Atom a) = (\<lambda>_. Undefined)"

text \<open>
  Modelled from the spec: \<open>getValue\<close> of utils/valueUtil. "\<open>get(store, path)\<close> returns the
  value at \<open>path\<close> or \<open>undefined\<close> if absent at any segment."
\<close>

fun getValue :: "storeValue \<Rightarrow> namePath \<Rightarrow> storeValue" where
  "getValue v [] = v"
| "getValue v (k # ks) = getValue (contentOf v k) ks"

text \<open>
  Modelled from the spec: \<open>setValue\<close> of utils/valueUtil. "\<open>set(store, path, value)\<close>
  returns a new store with \<open>value\<close> installed at \<open>path\<close>, creating intermediate maps/lists
  as needed, preserving all untouched subtrees by reference; when \<open>path\<close> is empty, \<open>set\<close>
  replaces the entire store." The containers along the path are new objects: \<open>newRef\<close>
  gives the identity of the one at a path, \<open>pre\<close> is the path walked so far. The value is
  installed as it is. Removing a leaf (the flag \<open>deleteIfUndefined\<close>) and storing
  \<open>undefined\<close> in it are the same container here.
\<close>

fun installAt ::
  "(namePath \<Rightarrow> ref) \<Rightarrow> namePath \<Rightarrow> storeValue \<Rightarrow> namePath \<Rightarrow> storeValue \<Rightarrow> storeValue" where
  "installAt newRef pre s [] v = v"
| "installAt newRef pre s (k # ks) v =
     Obj (newRef pre) ((contentOf s)(k := installAt newRef (pre @ [k]) (contentOf s k) ks v))"

text \<open>
  Modelled from the spec: \<open>setValue\<close> as the store calls it, to build the store of
  generation \<open>g\<close>.
\<close>

definition setValue :: "nat \<Rightarrow> storeValue \<Rightarrow> namePath \<Rightarrow> storeValue \<Rightarrow> storeValue" where
  "setValue g s namePath v = installAt (Made g) [] s namePath v"

text \<open>
  Modelled from the spec: \<open>cloneDeep\<close>, the clone of the structural store operations: a
  copy in which every container is a new object.
\<close>

primrec cloneDeep :: "storeValue \<Rightarrow> (namePath \<Rightarrow> ref) \<Rightarrow> namePath \<Rightarrow> storeValue" where
  "cloneDeep Undefined newRef pre = Undefined"
| "cloneDeep (Atom a) newRef pre = Atom a"
| "cloneDeep (Obj r f) newRef pre = Obj (newRef pre) (\<lambda>k. cloneDeep (f k) newRef (pre @ [k]))"

text \<open>
  Modelled from the spec: \<open>setValues\<close> of utils/valueUtil, the merge of the structural
  store operations. Where both sides are containers the merge descends, into a new
  container; otherwise a copy of the new value replaces the old one; what the new store does
  not mention is kept as it is.
\<close>

primrec mergeAt :: "storeValue \<Rightarrow> (namePath \<Rightarrow> ref) \<Rightarrow> namePath \<Rightarrow> storeValue \<Rightarrow> storeValue" where
  "mergeAt Undefined newRef pre v = cloneDeep v newRef pre"
| "mergeAt (Atom a) newRef pre v =
     (case v of Undefined \<Rightarrow> Atom a | Atom b \<Rightarrow> Atom b | Obj r g \<Rightarrow> cloneDeep (Obj r g) newRef pre)"
| "mergeAt (Obj r f) newRef pre v =
     (case v of
        Undefined \<Rightarrow> Obj r f
      | Atom b \<Rightarrow> Atom b
      | Obj r' g \<Rightarrow> Obj (newRef pre) (\<lambda>k. mergeAt (f k) newRef (pre @ [k]) (g k)))"

text \<open>
  Modelled from the spec: \<open>setValues\<close> as the store calls it, to build the store of
  generation \<open>g\<close>.
\<close>

definition setValues :: "nat \<Rightarrow> storeValue \<Rightarrow> storeValue \<Rightarrow> storeValue" where
  "setValues g s v = mergeAt s (Made g) [] v"

text \<open>
  Modelled from the spec: \<open>cloneByNamePathList\<close> of utils/valueUtil.
  "\<open>cloneByNamePathList(store, paths)\<close> extracts a minimal sub-store containing only the
  given paths." The sub-store is built by \<open>setValue\<close> from a new object; its containers
  are those of a copy, made while the store is in generation \<open>g\<close>.
\<close>

definition cloneByNamePathList :: "nat \<Rightarrow> storeValue \<Rightarrow> namePath list \<Rightarrow> storeValue" where
  "cloneByNamePathList g store namePathList =
     foldl (\<lambda>newStore namePath. installAt (Copied g) [] newStore namePath (getValue store namePath))
       (emptyObject (Copied g [])) namePathList"

text \<open>
  Modelled from the spec: \<open>matchNamePath\<close> and \<open>containsNamePath\<close> of utils/valueUtil.
  "Two paths are equal iff same length and pairwise-equal segments."
\<close>

definition matchNamePath :: "namePath \<Rightarrow> namePath \<Rightarrow> bool" where
  "matchNamePath namePath changedNamePath = (namePath = changedNamePath)"

definition containsNamePath :: "namePath list \<Rightarrow> namePath \<Rightarrow> bool" where
  "containsNamePath namePathList namePath = list_ex (\<lambda>path. matchNamePath path namePath) namePathList"

text \<open>A \<open>NamePath\<close> as the user gives it: one segment, or a list of segments.\<close>

datatype rawNamePath = Scalar seg | Path "seg list"

text \<open>
  Modelled from the spec: \<open>getNamePath\<close> of utils/valueUtil, which "converts a
  user-supplied key (scalar or ordered sequence of scalars) into a canonical ordered sequence
  of path segments".
\<close>

fun getNamePath :: "rawNamePath \<Rightarrow> namePath" where
  "getNamePath (Scalar k) = [k]"
| "getNamePath (Path ks) = ks"

section \<open>Field (the field entity)\<close>

datatype source = Internal | External

text \<open>
  A \<open>FieldData\<close> record, as given to \<open>setFields\<close> or produced by \<open>getFields\<close>. A
  component is \<open>None\<close> when the key is not in the object; \<open>originRCField\<close> marks the
  records \<open>getFields\<close> produces.
\<close>

record fieldData =
  fd_name :: rawNamePath
  fd_value :: "storeValue option"
  fd_touched :: "bool option"
  fd_validating :: "bool option"
  fd_errors :: "message list option"
  fd_warnings :: "message list option"
  originRCField :: bool

text \<open>\<open>NotifyInfo\<close>; the store of a \<open>ValuedNotifyInfo\<close> is passed beside it.\<close>

datatype notifyInfo =
    ValueUpdate source
  | Reset
  | SetField fieldData
  | Remove
  | DependenciesUpdate "namePath list"
  | ValidateFinish

text \<open>
  The prop \<open>shouldUpdate\<close>: a boolean, or a function of the previous store, the next store
  and the \<open>source\<close> of the info, if it has one.
\<close>

datatype shouldUpdate =
    ShouldUpdateBool bool
  | ShouldUpdateFun "storeValue \<Rightarrow> storeValue \<Rightarrow> source option \<Rightarrow> bool"

text \<open>
  What a field does to the outside: \<open>onMetaChange\<close> with the meta (touched, validating,
  errors, warnings), \<open>forceUpdate\<close>, and the \<open>onReset\<close> prop.
\<close>

datatype fieldEffect =
    MetaChange bool bool "message list" "message list"
  | ReRender
  | OnReset

text \<open>
  A field: the props the store reads (\<open>name\<close> is the result of \<open>getNamePath()\<close>,
  \<open>dependencies\<close> are the paths \<open>getNamePath\<close> makes of the prop and default to the
  empty list, an absent \<open>initialValue\<close> is \<open>Undefined\<close>, \<open>rules\<close> are rule
  objects), then the private state of the component.
  \<open>validatePromise\<close> holds the identity of a promise; \<open>fieldErrors\<close> and
  \<open>fieldWarnings\<close> are \<open>this.errors\<close> and \<open>this.warnings\<close>.
\<close>

record field =
  name :: namePath
  dependencies :: "namePath list"
  initialValue :: storeValue
  rules :: "storeValue rule list"
  shouldUpdate :: "shouldUpdate option"
  onReset :: bool
  validateFirst :: validateFirst
  messageVariables :: "(string \<times> string) list"
  isListField :: "bool option"
  preserve :: "bool option"
  mounted :: bool
  touched :: bool
  dirty :: bool
  validatePromise :: "nat option"
  fieldErrors :: "message list"
  fieldWarnings :: "message list"
  resetCount :: nat
  effects :: "fieldEffect list"

definition reRender :: "field \<Rightarrow> field" where
  "reRender f = (if mounted f then f\<lparr>effects := effects f @ [ReRender]\<rparr> else f)"

definition refresh :: "field \<Rightarrow> field" where
  "refresh f = (if mounted f then f\<lparr>resetCount := resetCount f + 1\<rparr> else f)"

definition isFieldValidating :: "field \<Rightarrow> bool" where
  "isFieldValidating f = (validatePromise f \<noteq> None)"

definition triggerMetaEvent :: "field \<Rightarrow> field" where
  "triggerMetaEvent f =
     f\<lparr>effects := effects f @
          [MetaChange (touched f) (isFieldValidating f) (fieldErrors f) (fieldWarnings f)]\<rparr>"

definition callOnReset :: "field \<Rightarrow> field" where
  "callOnReset f = (if onReset f then f\<lparr>effects := effects f @ [OnReset]\<rparr> else f)"

text \<open>Whether \<open>shouldUpdate\<close> is truthy, and whether it is literally \<open>true\<close>.\<close>

definition shouldUpdateSet :: "shouldUpdate option \<Rightarrow> bool" where
  "shouldUpdateSet su =
     (case su of None \<Rightarrow> False | Some (ShouldUpdateBool b) \<Rightarrow> b | Some (ShouldUpdateFun g) \<Rightarrow> True)"

definition shouldUpdateTrue :: "shouldUpdate option \<Rightarrow> bool" where
  "shouldUpdateTrue su =
     (case su of None \<Rightarrow> False | Some (ShouldUpdateBool b) \<Rightarrow> b | Some (ShouldUpdateFun g) \<Rightarrow> False)"

definition requireUpdate ::
  "shouldUpdate option \<Rightarrow> storeValue \<Rightarrow> storeValue \<Rightarrow> storeValue \<Rightarrow> storeValue \<Rightarrow> notifyInfo \<Rightarrow> bool" where
  "requireUpdate su prev next prevValue nextValue info =
     (case su of
        Some (ShouldUpdateFun g) \<Rightarrow>
          g prev next (case info of ValueUpdate src \<Rightarrow> Some src | _ \<Rightarrow> None)
      | _ \<Rightarrow> prevValue \<noteq> nextValue)"

text \<open>
  The \<open>setField\<close> branch applied to the matching field. \<open>fresh\<close> is the identity of the
  promise \<open>Promise.resolve([])\<close> creates.
\<close>

definition applyFieldData :: "nat \<Rightarrow> fieldData \<Rightarrow> field \<Rightarrow> field" where
  "applyFieldData fresh data f =
     (let f1 = (case fd_touched data of None \<Rightarrow> f | Some t \<Rightarrow> f\<lparr>touched := t\<rparr>);
          f2 = (case fd_validating data of
                  None \<Rightarrow> f1
                | Some v \<Rightarrow>
                    if originRCField data then f1
                    else f1\<lparr>validatePromise := (if v then Some fresh else None)\<rparr>);
          f3 = (case fd_errors data of None \<Rightarrow> f2 | Some es \<Rightarrow> f2\<lparr>fieldErrors := es\<rparr>);
          f4 = (case fd_warnings data of None \<Rightarrow> f3 | Some ws \<Rightarrow> f3\<lparr>fieldWarnings := ws\<rparr>)
      in f4\<lparr>dirty := True\<rparr>)"

text \<open>The state the \<open>reset\<close> branch installs.\<close>

definition cleanUp :: "field \<Rightarrow> field" where
  "cleanUp f =
     f\<lparr>touched := False, dirty := False, validatePromise := None,
       fieldErrors := [], fieldWarnings := []\<rparr>"

text \<open>
  The state the block for \<open>valueUpdate\<close> with source \<open>external\<close> installs, which runs
  before the \<open>switch\<close>.
\<close>

definition externalUpdate :: "field \<Rightarrow> field" where
  "externalUpdate f =
     triggerMetaEvent
       (f\<lparr>touched := True, dirty := True, validatePromise := None,
          fieldErrors := [], fieldWarnings := []\<rparr>)"

definition isExternalValueUpdate :: "notifyInfo \<Rightarrow> bool" where
  "isExternalValueUpdate info =
     (case info of ValueUpdate External \<Rightarrow> True | _ \<Rightarrow> False)"

text \<open>
  \<open>onStoreChange(prevStore, namePathList, info)\<close>, with \<open>info.store\<close> as the argument
  \<open>store\<close>. \<open>namePathList\<close> is \<open>None\<close> for \<open>null\<close>. The test
  \<open>prevValue !== curValue\<close> is \<open>\<noteq>\<close> on store values, which compares containers by
  their identity.
\<close>

definition onStoreChange ::
  "nat \<Rightarrow> storeValue \<Rightarrow> namePath list option \<Rightarrow> notifyInfo \<Rightarrow> storeValue \<Rightarrow> field \<Rightarrow> field" where
  "onStoreChange fresh prevStore namePathList info store f0 =
     (let prevValue = getValue prevStore (name f0);
          curValue = getValue store (name f0);
          namePathMatch =
            (case namePathList of None \<Rightarrow> False | Some l \<Rightarrow> containsNamePath l (name f0));
          f = (if isExternalValueUpdate info \<and> prevValue \<noteq> curValue then externalUpdate f0 else f0);
          afterSwitch = (if shouldUpdateTrue (shouldUpdate f) then reRender f else f);
          byDefault =
            (if namePathMatch \<or>
                ((dependencies f = [] \<or> name f \<noteq> [] \<or> shouldUpdateSet (shouldUpdate f)) \<and>
                 requireUpdate (shouldUpdate f) prevStore store prevValue curValue info)
             then reRender f else afterSwitch)
      in case info of
           Reset \<Rightarrow>
             if namePathList = None \<or> namePathMatch
             then refresh (callOnReset (triggerMetaEvent (cleanUp f)))
             else afterSwitch
         | Remove \<Rightarrow>
             if shouldUpdateSet (shouldUpdate f) then reRender f else afterSwitch
         | SetField data \<Rightarrow>
             if namePathMatch
             then reRender (triggerMetaEvent (applyFieldData fresh data f))
             else if shouldUpdateSet (shouldUpdate f) \<and> name f = [] \<and>
                     requireUpdate (shouldUpdate f) prevStore store prevValue curValue info
             then reRender f
             else afterSwitch
         | DependenciesUpdate relatedFields \<Rightarrow>
             if list_ex (\<lambda>dependency. containsNamePath relatedFields dependency) (dependencies f)
             then reRender f
             else afterSwitch
         | ValueUpdate src \<Rightarrow> byDefault
         | ValidateFinish \<Rightarrow> byDefault)"

subsection \<open>Field.validateRules\<close>

text \<open>
  The synchronous part: \<open>rootPromise\<close> is created and stored, the field is marked dirty
  and its errors and warnings are emptied.
\<close>

definition validateRulesStart :: "nat \<Rightarrow> field \<Rightarrow> field" where
  "validateRulesStart rootPromise f =
     reRender (triggerMetaEvent
       (f\<lparr>validatePromise := Some rootPromise, dirty := True,
          fieldErrors := [], fieldWarnings := []\<rparr>))"

text \<open>The rules armed by \<open>triggerName\<close>, if one is given (an empty name is falsy).\<close>

definition filterRules :: "string option \<Rightarrow> 'v rule list \<Rightarrow> 'v rule list" where
  "filterRules triggerName rs =
     (case triggerName of
        None \<Rightarrow> rs
      | Some t \<Rightarrow>
          if t = [] then rs
          else filter (\<lambda>r. case validateTrigger r of
                               None \<Rightarrow> True
                             | Some triggerList \<Rightarrow> t \<in> set triggerList) rs)"

text \<open>
  The callback of \<open>Promise.resolve().then\<close>, a tick later: what \<open>rootPromise\<close> settles
  to. An unmounted field resolves it with the empty list; otherwise it follows the promise of
  \<open>validateRules\<close> on the value captured at the start.
\<close>

definition rootPromiseOutcome ::
  "storeValue asyncValidator \<Rightarrow> message \<Rightarrow> (storeValue \<Rightarrow> storeValue list option) \<Rightarrow>
   ((storeValue \<Rightarrow> behaviour) \<Rightarrow> string) \<Rightarrow> (string \<rightharpoonup> string) \<Rightarrow>
   (storeValue rule \<Rightarrow> nat) \<Rightarrow> string option \<Rightarrow> storeValue \<Rightarrow> field \<Rightarrow>
   (storeValue ruleError list, storeValue rejection) promise" where
  "rootPromiseOutcome lib dflt elems functionText inherited delay triggerName currentValue f =
     (if \<not> mounted f then Resolved []
      else fst (validateRules lib dflt elems functionText inherited delay (name f) currentValue
                  (filterRules triggerName (rules f)) (validateFirst f) (messageVariables f)))"

text \<open>
  What the continuation \<open>promise.catch(e => e).then((ruleErrors = EMPTY_ERRORS) => ...)\<close>
  reads of the settled promise of \<open>validateRules\<close>: the list it was resolved or rejected
  with. A thrown error has no \<open>forEach\<close>, so \<open>ruleErrors.forEach?.(...)\<close> does for it
  what it does for the empty list. \<open>None\<close>: the promise is pending and the continuation
  does not run.
\<close>

definition settledRuleErrors ::
  "('v ruleError list, 'v rejection) promise \<Rightarrow> 'v ruleError list option" where
  "settledRuleErrors p =
     (case p of
        Pending \<Rightarrow> None
      | Resolved ruleErrors \<Rightarrow> Some ruleErrors
      | Rejected (RuleErrors ruleErrors) \<Rightarrow> Some ruleErrors
      | Rejected (Thrown e) \<Rightarrow> Some [])"

text \<open>
  The continuation \<open>promise.catch(e => e).then(ruleErrors => ...)\<close>, run when the promise
  of \<open>validateRules\<close> has settled, on the list \<open>ruleErrors\<close> it reads of it.
\<close>

definition rulesSettled :: "nat \<Rightarrow> storeValue ruleError list \<Rightarrow> field \<Rightarrow> field" where
  "rulesSettled rootPromise ruleErrors f =
     (if validatePromise f = Some rootPromise
      then reRender (triggerMetaEvent
             (f\<lparr>validatePromise := None,
                fieldErrors :=
                  concat (map errors (filter (\<lambda>e. \<not> truthy (warningOnly (rule e))) ruleErrors)),
                fieldWarnings :=
                  concat (map errors (filter (\<lambda>e. truthy (warningOnly (rule e))) ruleErrors))\<rparr>))
      else f)"

text \<open>
  \<open>isFieldDirty\<close>: the \<open>dirty\<close> flag, or an \<open>initialValue\<close> of the field, or an initial
  value of the form at the field's path (\<open>getInitialValue\<close> of the store, whose copy is
  \<open>undefined\<close> exactly when the initial value is).
\<close>

definition isFieldDirty :: "storeValue \<Rightarrow> field \<Rightarrow> bool" where
  "isFieldDirty formInitialValues f =
     (if dirty f \<or> initialValue f \<noteq> Undefined then True
      else if getValue formInitialValues (name f) \<noteq> Undefined then True
      else False)"

section \<open>FormStore (useForm.ts)\<close>

text \<open>
  A \<open>FieldError\<close>: the result of validating one field.
\<close>

record fieldError =
  fe_name :: namePath
  fe_errors :: "message list"
  fe_warnings :: "message list"

text \<open>
  What the store does to the outside, in order: a call of a field's \<open>onStoreChange\<close>
  (the field is given by its position in \<open>fieldEntities\<close>), \<open>forceRootUpdate\<close>, a call
  of a watch callback, of \<open>onValuesChange\<close>, of \<open>onFieldsChange\<close>, and a development warning.
\<close>

datatype event =
    StoreChange nat "namePath list option" notifyInfo
  | ForceRootUpdate
  | WatchCallback nat storeValue "namePath list"
  | OnValuesChange storeValue storeValue
  | OnFieldsChange "fieldData list" "fieldData list"
  | Warning string

text \<open>
  The state of a \<open>FormStore\<close>. Watch callbacks are numbered; \<open>onValuesChange\<close> and
  \<open>onFieldsChange\<close> say whether the callback is set; \<open>formPreserve\<close> is
  \<open>this.preserve\<close>; \<open>nextPromise\<close> is the identity the next created promise gets;
  \<open>generation\<close> counts the stores the form has had, and the containers made for the
  next one carry it in their identity; \<open>trace\<close> collects the events. The timer of
  \<open>warningUnhooked\<close> is left out.
\<close>

record formStore =
  store :: storeValue
  initialValues :: storeValue
  fieldEntities :: "field list"
  subscribable :: bool
  watchList :: "nat list"
  onValuesChange :: bool
  onFieldsChange :: bool
  formPreserve :: "bool option"
  lastValidatePromise :: "nat option"
  nextPromise :: nat
  generation :: nat
  trace :: "event list"

definition emit :: "event list \<Rightarrow> formStore \<Rightarrow> formStore" where
  "emit es s = s\<lparr>trace := trace s @ es\<rparr>"

text \<open>\<open>updateStore\<close>: the store is replaced, and a new generation begins.\<close>

definition updateStore :: "storeValue \<Rightarrow> formStore \<Rightarrow> formStore" where
  "updateStore nextStore s = s\<lparr>store := nextStore, generation := generation s + 1\<rparr>"

text \<open>
  \<open>getFieldEntities(true)\<close>, as positions in \<open>fieldEntities\<close>: the fields with a name.
\<close>

definition pureEntities :: "formStore \<Rightarrow> nat list" where
  "pureEntities s =
     filter (\<lambda>i. name (fieldEntities s ! i) \<noteq> []) [0..<length (fieldEntities s)]"

text \<open>
  \<open>getInitialValue\<close>: \<open>namePath.length ? cloneDeep(initValue) : initValue\<close>. The copy
  is made for the next store, at the path.
\<close>

definition getInitialValue :: "formStore \<Rightarrow> namePath \<Rightarrow> storeValue" where
  "getInitialValue s namePath =
     (let initValue = getValue (initialValues s) namePath
      in if namePath \<noteq> [] then cloneDeep initValue (Made (generation s)) namePath else initValue)"

definition getFieldValue :: "formStore \<Rightarrow> namePath \<Rightarrow> storeValue" where
  "getFieldValue s namePath = getValue (store s) namePath"

text \<open>
  \<open>getFieldsValue(nameList)\<close> without a filter function: the sub-store of the given
  paths, or, without a list, of the named fields that are not list items.
  (\<open>getFieldsValue(true)\<close> is \<open>store\<close>.)
\<close>

definition getFieldsValue :: "formStore \<Rightarrow> namePath list option \<Rightarrow> storeValue" where
  "getFieldsValue s nameList =
     (case nameList of
        Some l \<Rightarrow> cloneByNamePathList (generation s) (store s) l
      | None \<Rightarrow>
          cloneByNamePathList (generation s) (store s)
            (map (\<lambda>i. name (fieldEntities s ! i))
               (filter (\<lambda>i. \<not> truthy (isListField (fieldEntities s ! i))) (pureEntities s))))"

subsection \<open>Notification\<close>

text \<open>
  \<open>notifyObservers\<close>: every registered field gets \<open>onStoreChange\<close> with the store added
  to the info, unless the store is not subscribable; then the root is updated instead.
\<close>

definition notifyObservers ::
  "storeValue \<Rightarrow> namePath list option \<Rightarrow> notifyInfo \<Rightarrow> formStore \<Rightarrow> formStore" where
  "notifyObservers prevStore namePathList info s =
     (if subscribable s
      then s\<lparr>fieldEntities :=
               map (\<lambda>(f, i). onStoreChange (nextPromise s + i) prevStore namePathList info (store s) f)
                 (zip (fieldEntities s) [0..<length (fieldEntities s)]),
             nextPromise := nextPromise s + length (fieldEntities s),
             trace := trace s @
               map (\<lambda>i. StoreChange i namePathList info) [0..<length (fieldEntities s)]\<rparr>
      else emit [ForceRootUpdate] s)"

text \<open>\<open>notifyWatch\<close>: every watch callback is called with the values and the paths.\<close>

definition notifyWatch :: "namePath list \<Rightarrow> formStore \<Rightarrow> formStore" where
  "notifyWatch namePath s =
     (if watchList s \<noteq> []
      then emit (map (\<lambda>callback. WatchCallback callback (getFieldsValue s None) namePath) (watchList s)) s
      else s)"

subsection \<open>Reset\<close>

text \<open>
  The cache of \<open>resetWithFieldInitialValue\<close>: the records at a path are the named fields
  at that path that declare an \<open>initialValue\<close>, in order of registration.
\<close>

definition initialValueRecords :: "formStore \<Rightarrow> namePath \<Rightarrow> nat list" where
  "initialValueRecords s namePath =
     filter (\<lambda>i. initialValue (fieldEntities s ! i) \<noteq> Undefined \<and>
                 name (fieldEntities s ! i) = namePath) (pureEntities s)"

text \<open>
  One step of \<open>resetWithFields\<close>, for the field at position \<open>i\<close>.
\<close>

definition resetWithField :: "bool \<Rightarrow> formStore \<Rightarrow> nat \<Rightarrow> formStore" where
  "resetWithField skipExist s i =
     (let fld = fieldEntities s ! i in
      if initialValue fld \<noteq> Undefined then
        (let namePath = name fld;
             formInitialValue = getInitialValue s namePath
         in if formInitialValue \<noteq> Undefined
            then emit [Warning ''Form already set initialValues with path. Field can not overwrite it.''] s
            else
              (case initialValueRecords s namePath of
                 [] \<Rightarrow> s
               | r # rest \<Rightarrow>
                   if rest \<noteq> []
                   then emit [Warning ''Multiple Field with path set initialValue. Can not decide which one to pick.''] s
                   else
                     (let originValue = getFieldValue s namePath in
                      if \<not> skipExist \<or> originValue = Undefined
                      then updateStore (setValue (generation s) (store s) namePath (initialValue (fieldEntities s ! r))) s
                      else s)))
      else s)"

text \<open>
  \<open>resetWithFieldInitialValue(info)\<close>: \<open>entities\<close> and \<open>namePathList\<close> are \<open>None\<close>
  when the key is absent.
\<close>

definition resetWithFieldInitialValue ::
  "nat list option \<Rightarrow> namePath list option \<Rightarrow> bool \<Rightarrow> formStore \<Rightarrow> formStore" where
  "resetWithFieldInitialValue entities namePathList skipExist s =
     (let requiredFieldEntities =
            (case entities of
               Some es \<Rightarrow> es
             | None \<Rightarrow>
                 (case namePathList of
                    Some l \<Rightarrow> concat (map (initialValueRecords s) l)
                  | None \<Rightarrow> pureEntities s))
      in foldl (resetWithField skipExist) s requiredFieldEntities)"

text \<open>
  When a step of \<open>resetWithFields\<close> writes the field's \<open>initialValue\<close> into the
  store (without \<open>skipExist\<close>): the field declares one, the form has no initial value at
  the path, and no other field at the path declares one.
\<close>

definition fieldInitialValueApplies :: "formStore \<Rightarrow> nat \<Rightarrow> bool" where
  "fieldInitialValueApplies s i =
     (initialValue (fieldEntities s ! i) \<noteq> Undefined \<and>
      getInitialValue s (name (fieldEntities s ! i)) = Undefined \<and>
      length (initialValueRecords s (name (fieldEntities s ! i))) = 1)"

text \<open>\<open>resetFields(nameList)\<close>\<close>

definition resetFields :: "rawNamePath list option \<Rightarrow> formStore \<Rightarrow> formStore" where
  "resetFields nameList s =
     (let prevStore = store s in
      case nameList of
        None \<Rightarrow>
          notifyWatch []
            (notifyObservers prevStore None Reset
              (resetWithFieldInitialValue None None False
                (updateStore (setValues (generation s) (emptyObject (Made (generation s) [])) (initialValues s)) s)))
      | Some l \<Rightarrow>
          (let namePathList = map getNamePath l;
               s1 = foldl (\<lambda>st namePath.
                            updateStore (setValue (generation st) (store st) namePath
                                           (getInitialValue st namePath)) st)
                      s namePathList
           in notifyWatch namePathList
                (notifyObservers prevStore (Some namePathList) Reset
                  (resetWithFieldInitialValue None (Some namePathList) False s1))))"

subsection \<open>setFields, setFieldValue, setFieldsValue\<close>

definition setField :: "storeValue \<Rightarrow> formStore \<Rightarrow> fieldData \<Rightarrow> formStore" where
  "setField prevStore s fieldData =
     (let namePath = getNamePath (fd_name fieldData);
          s1 = (case fd_value fieldData of
                  Some v \<Rightarrow> updateStore (setValue (generation s) (store s) namePath v) s
                | None \<Rightarrow> s)
      in notifyObservers prevStore (Some [namePath]) (SetField fieldData) s1)"

definition setFields :: "fieldData list \<Rightarrow> formStore \<Rightarrow> formStore" where
  "setFields fds s =
     notifyWatch (map (\<lambda>fieldData. getNamePath (fd_name fieldData)) fds)
       (foldl (setField (store s)) s fds)"

text \<open>\<open>setFieldValue(name, value)\<close>: \<open>setFields([{ name, value }])\<close>.\<close>

definition setFieldValue :: "rawNamePath \<Rightarrow> storeValue \<Rightarrow> formStore \<Rightarrow> formStore" where
  "setFieldValue nm v s =
     setFields [\<lparr>fd_name = nm, fd_value = Some v, fd_touched = None, fd_validating = None,
                  fd_errors = None, fd_warnings = None, originRCField = False\<rparr>] s"

text \<open>\<open>setFieldsValue(store)\<close>; the argument is \<open>None\<close> when it is falsy.\<close>

definition setFieldsValue :: "storeValue option \<Rightarrow> formStore \<Rightarrow> formStore" where
  "setFieldsValue values s =
     (let prevStore = store s;
          s1 = (case values of
                  Some v \<Rightarrow> updateStore (setValues (generation s) (store s) v) s
                | None \<Rightarrow> s)
      in notifyWatch [] (notifyObservers prevStore None (ValueUpdate External) s1))"

subsection \<open>Dependency cascade\<close>

text \<open>
  \<open>dependencies2fields.get(namePath)\<close>: the registered fields that declare \<open>namePath\<close>
  among their \<open>dependencies\<close>, in order of registration, each once (a \<open>Set\<close> keyed by
  the entity).
\<close>

definition dependencies2fields :: "field list \<Rightarrow> namePath \<Rightarrow> nat list" where
  "dependencies2fields fs namePath =
     filter (\<lambda>i. namePath \<in> set (dependencies (fs ! i))) [0..<length fs]"

text \<open>
  \<open>fillChildren\<close>, with the set \<open>children\<close> (positions of visited fields, in order of
  insertion) and the list \<open>childrenFields\<close> as the state. \<open>visitFields\<close> is the
  \<open>forEach\<close> over the dependents of a path. The first argument bounds the depth of the
  recursion; \<open>None\<close> means that the bound was reached.
\<close>

fun fillChildren ::
    "nat \<Rightarrow> storeValue \<Rightarrow> field list \<Rightarrow> namePath \<Rightarrow> nat list \<times> namePath list \<Rightarrow>
     (nat list \<times> namePath list) option"
  and visitFields ::
    "nat \<Rightarrow> storeValue \<Rightarrow> field list \<Rightarrow> nat list \<Rightarrow> nat list \<times> namePath list \<Rightarrow>
     (nat list \<times> namePath list) option" where
  "fillChildren 0 iv fs namePath st = None"
| "fillChildren (Suc n) iv fs namePath st = visitFields n iv fs (dependencies2fields fs namePath) st"
| "visitFields n iv fs [] st = Some st"
| "visitFields n iv fs (i # rest) (children, childrenFields) =
     (if i \<in> set children then visitFields n iv fs rest (children, childrenFields)
      else
        (let fieldNamePath = name (fs ! i) in
         if isFieldDirty iv (fs ! i) \<and> fieldNamePath \<noteq> []
         then (case fillChildren n iv fs fieldNamePath (children @ [i], childrenFields @ [fieldNamePath]) of
                 None \<Rightarrow> None
               | Some st \<Rightarrow> visitFields n iv fs rest st)
         else visitFields n iv fs rest (children @ [i], childrenFields)))"

text \<open>
  \<open>getDependencyChildrenFields(rootNamePath)\<close>. Every level of the recursion visits a
  field that was not visited before, so a depth of one more than the number of fields is
  never reached.
\<close>

definition getDependencyChildrenFields :: "formStore \<Rightarrow> namePath \<Rightarrow> namePath list option" where
  "getDependencyChildrenFields s rootNamePath =
     map_option snd
       (fillChildren (Suc (length (fieldEntities s))) (initialValues s) (fieldEntities s)
          rootNamePath ([], []))"

subsection \<open>Field change callback\<close>

text \<open>\<open>getFields\<close>: the meta and the value of every named field.\<close>

definition getFields :: "formStore \<Rightarrow> fieldData list" where
  "getFields s =
     map (\<lambda>i. let f = fieldEntities s ! i in
            \<lparr>fd_name = Path (name f),
             fd_value = Some (getFieldValue s (name f)),
             fd_touched = Some (touched f),
             fd_validating = Some (isFieldValidating f),
             fd_errors = Some (fieldErrors f),
             fd_warnings = Some (fieldWarnings f),
             originRCField = True\<rparr>)
       (pureEntities s)"

text \<open>
  The errors of \<open>filedErrors\<close> put into the field data: \<open>cache.set(name, errors)\<close> for
  each, the last one for a name wins, then \<open>field.errors = cache.get(field.name) || field.errors\<close>.
\<close>

definition fillErrors :: "fieldError list \<Rightarrow> fieldData list \<Rightarrow> fieldData list" where
  "fillErrors filedErrors fds =
     map (\<lambda>fd. case map_of (rev (map (\<lambda>e. (fe_name e, fe_errors e)) filedErrors))
                       (getNamePath (fd_name fd)) of
                  None \<Rightarrow> fd
                | Some errs \<Rightarrow> fd\<lparr>fd_errors := Some errs\<rparr>) fds"

text \<open>
  \<open>triggerOnFieldsChange(namePathList, filedErrors)\<close>: if the callback is set, it gets the
  changed fields and all fields.
\<close>

definition triggerOnFieldsChange ::
  "namePath list \<Rightarrow> fieldError list option \<Rightarrow> formStore \<Rightarrow> formStore" where
  "triggerOnFieldsChange namePathList filedErrors s =
     (if onFieldsChange s then
        (let fds = (case filedErrors of None \<Rightarrow> getFields s | Some es \<Rightarrow> fillErrors es (getFields s));
             changedFields =
               filter (\<lambda>fd. containsNamePath namePathList (getNamePath (fd_name fd))) fds
         in emit [OnFieldsChange changedFields fds] s)
      else s)"

subsection \<open>validateFields: the synchronous part\<close>

record validateOptions =
  triggerName :: "string option"
  recursive :: bool

definition noOptions :: validateOptions where
  "noOptions = \<lparr>triggerName = None, recursive = False\<rparr>"

text \<open>
  An element of \<open>promiseList\<close>: the field (its position), its path, the identity of the
  root promise \<open>field.validateRules\<close> returned, and the value it captured.
\<close>

record validateEntry =
  ve_field :: nat
  ve_name :: namePath
  ve_rootPromise :: nat
  ve_value :: storeValue

text \<open>What the continuations of one call of \<open>validateFields\<close> close over.\<close>

record validateTask =
  summaryPromise :: nat
  taskNamePathList :: "namePath list"
  promiseList :: "validateEntry list"

text \<open>
  The test of the \<open>recursive\<close> option:
  \<open>namePath.every((nameUnit, i) => nameList[i] === nameUnit || nameList[i] === undefined)\<close>.
\<close>

definition recursiveMatch :: "rawNamePath list \<Rightarrow> namePath \<Rightarrow> bool" where
  "recursiveMatch nameList namePath =
     list_all (\<lambda>(nameUnit, i). if i < length nameList then nameList ! i = Scalar nameUnit else True)
       (zip namePath [0..<length namePath])"

text \<open>
  The two \<open>namePathList.push\<close> at the head of the loop body: the field's path is added
  when no \<open>nameList\<close> was given, and when the \<open>recursive\<close> option matches it.
\<close>

definition pushNamePath ::
  "rawNamePath list option \<Rightarrow> validateOptions \<Rightarrow> namePath list \<Rightarrow> namePath \<Rightarrow> namePath list" where
  "pushNamePath nameList options namePathList fieldNamePath =
     (let npl1 = (if nameList = None then namePathList @ [fieldNamePath] else namePathList)
      in case nameList of
           None \<Rightarrow> npl1
         | Some l \<Rightarrow>
             if recursive options \<and> recursiveMatch l fieldNamePath
             then npl1 @ [fieldNamePath] else npl1)"

text \<open>The body of the loop over the named fields.\<close>

definition validateFieldStep ::
  "rawNamePath list option \<Rightarrow> validateOptions \<Rightarrow>
   namePath list \<times> validateEntry list \<times> formStore \<Rightarrow> nat \<Rightarrow>
   namePath list \<times> validateEntry list \<times> formStore" where
  "validateFieldStep nameList options acc i =
     (case acc of (namePathList, entries, s) \<Rightarrow>
        (let fld = fieldEntities s ! i;
             npl = pushNamePath nameList options namePathList (name fld)
         in if rules fld = [] then (npl, entries, s)
            else if nameList = None \<or> containsNamePath npl (name fld)
            then (npl,
                  entries @ [\<lparr>ve_field = i, ve_name = name fld, ve_rootPromise = nextPromise s,
                               ve_value = getValue (store s) (name fld)\<rparr>],
                  s\<lparr>fieldEntities := (fieldEntities s)[i := validateRulesStart (nextPromise s) fld],
                    nextPromise := nextPromise s + 1\<rparr>)
            else (npl, entries, s)))"

text \<open>
  \<open>validateFields(nameList, options)\<close> up to its \<open>return\<close>: every selected field with
  rules starts its validation, the summary promise is created and stored in
  \<open>lastValidatePromise\<close>.
\<close>

definition validateFields ::
  "rawNamePath list option \<Rightarrow> validateOptions \<Rightarrow> formStore \<Rightarrow> formStore \<times> validateTask" where
  "validateFields nameList options s =
     (case foldl (validateFieldStep nameList options)
             ((case nameList of None \<Rightarrow> [] | Some l \<Rightarrow> map getNamePath l), [], s)
             (pureEntities s) of
        (namePathList, entries, s1) \<Rightarrow>
          (s1\<lparr>lastValidatePromise := Some (nextPromise s1), nextPromise := nextPromise s1 + 1\<rparr>,
           \<lparr>summaryPromise = nextPromise s1, taskNamePathList = namePathList,
            promiseList = entries\<rparr>))"

subsection \<open>validateFields: the continuations\<close>

text \<open>
  The continuation of a field's rule promise, on the field at position \<open>i\<close> (fields keep
  their position as long as none is unregistered).
\<close>

definition fieldRulesSettled :: "nat \<Rightarrow> nat \<Rightarrow> storeValue ruleError list \<Rightarrow> formStore \<Rightarrow> formStore" where
  "fieldRulesSettled i rootPromise ruleErrors s =
     (if i < length (fieldEntities s)
      then s\<lparr>fieldEntities := (fieldEntities s)[i := rulesSettled rootPromise ruleErrors (fieldEntities s ! i)]\<rparr>
      else s)"

text \<open>
  The wrapper of a field's promise in \<open>promiseList\<close>: a rejection whose rule errors carry
  no error message (warnings only, or nothing) is turned into a fulfilment; so is the
  rejection with a thrown error, which has no \<open>forEach\<close>.
\<close>

definition fieldResult ::
  "namePath \<Rightarrow> (storeValue ruleError list, storeValue rejection) promise \<Rightarrow>
   (fieldError, fieldError) promise" where
  "fieldResult fieldNamePath p =
     (case p of
        Pending \<Rightarrow> Pending
      | Resolved x \<Rightarrow> Resolved \<lparr>fe_name = fieldNamePath, fe_errors = [], fe_warnings = []\<rparr>
      | Rejected (Thrown e) \<Rightarrow> Resolved \<lparr>fe_name = fieldNamePath, fe_errors = [], fe_warnings = []\<rparr>
      | Rejected (RuleErrors ruleErrors) \<Rightarrow>
          (let mergedErrors =
                 concat (map errors (filter (\<lambda>e. \<not> truthy (warningOnly (rule e))) ruleErrors));
               mergedWarnings =
                 concat (map errors (filter (\<lambda>e. truthy (warningOnly (rule e))) ruleErrors))
           in if mergedErrors \<noteq> []
              then Rejected \<lparr>fe_name = fieldNamePath, fe_errors = mergedErrors, fe_warnings = mergedWarnings\<rparr>
              else Resolved \<lparr>fe_name = fieldNamePath, fe_errors = mergedErrors, fe_warnings = mergedWarnings\<rparr>))"

text \<open>
  Modelled from the spec: \<open>allPromiseFinish\<close> of utils/asyncUtil, the summary task of
  the validation state machine "idle, validating, (resolved | rejected)": it settles when
  every promise of the list has, with the list of their values; it is rejected if one of
  them was.
\<close>

definition promiseValue :: "('a, 'a) promise \<Rightarrow> 'a option" where
  "promiseValue p = (case p of Pending \<Rightarrow> None | Resolved x \<Rightarrow> Some x | Rejected x \<Rightarrow> Some x)"

definition allPromiseFinish :: "('a, 'a) promise list \<Rightarrow> ('a list, 'a list) promise" where
  "allPromiseFinish ps =
     (case those (map promiseValue ps) of
        None \<Rightarrow> Pending
      | Some results \<Rightarrow> if list_ex isRejected ps then Rejected results else Resolved results)"

text \<open>
  The first continuation of the summary promise,
  \<open>summaryPromise.catch(results => results).then(results => ...)\<close>.
\<close>

definition validateFinished :: "fieldError list \<Rightarrow> formStore \<Rightarrow> formStore" where
  "validateFinished results s =
     (let resultNamePathList = map fe_name results
      in triggerOnFieldsChange resultNamePathList (Some results)
           (notifyObservers (store s) (Some resultNamePathList) ValidateFinish s))"

text \<open>
  What the promise returned to the caller settles to: the values, or the
  \<open>ValidateErrorEntity\<close> \<open>{ values, errorFields, outOfDate }\<close>.
\<close>

datatype validateResult =
    ResolvedValues storeValue
  | RejectedEntity storeValue "fieldError list" bool

definition returnPromise ::
  "validateTask \<Rightarrow> (fieldError list, fieldError list) promise \<Rightarrow> formStore \<Rightarrow> validateResult option" where
  "returnPromise task outcome s =
     (let rejectWith = (\<lambda>results.
            RejectedEntity (getFieldsValue s (Some (taskNamePathList task)))
              (filter (\<lambda>result. fe_errors result \<noteq> []) results)
              (lastValidatePromise s \<noteq> Some (summaryPromise task)))
      in case outcome of
           Pending \<Rightarrow> None
         | Resolved results \<Rightarrow>
             if lastValidatePromise s = Some (summaryPromise task)
             then Some (ResolvedValues (getFieldsValue s (Some (taskNamePathList task))))
             else Some (rejectWith [])
         | Rejected results \<Rightarrow> Some (rejectWith results))"

text \<open>
  The summary promise of \<open>task\<close> settles with \<open>outcome\<close>: both continuations run. The
  result is the new state and what the caller's promise settles to.
\<close>

definition summarySettled ::
  "validateTask \<Rightarrow> (fieldError list, fieldError list) promise \<Rightarrow> formStore \<Rightarrow>
   formStore \<times> validateResult option" where
  "summarySettled task outcome s =
     (case promiseValue outcome of
        None \<Rightarrow> (s, None)
      | Some results \<Rightarrow> (validateFinished results s, returnPromise task outcome s))"

subsection \<open>updateValue, dispatch and unregistration\<close>

text \<open>\<open>triggerDependenciesUpdate\<close>: the new state and \<open>childrenFields\<close>.\<close>

definition triggerDependenciesUpdate ::
  "storeValue \<Rightarrow> namePath \<Rightarrow> formStore \<Rightarrow> formStore \<times> namePath list" where
  "triggerDependenciesUpdate prevStore namePath s =
     (let childrenFields =
            (case getDependencyChildrenFields s namePath of None \<Rightarrow> [] | Some l \<Rightarrow> l);
          s1 = (if childrenFields \<noteq> []
                then fst (validateFields (Some (map Path childrenFields)) noOptions s)
                else s)
      in (notifyObservers prevStore (Some childrenFields)
            (DependenciesUpdate (namePath # childrenFields)) s1,
          childrenFields))"

definition updateValue :: "rawNamePath \<Rightarrow> storeValue \<Rightarrow> formStore \<Rightarrow> formStore" where
  "updateValue nm v s =
     (let namePath = getNamePath nm;
          prevStore = store s;
          s1 = updateStore (setValue (generation s) (store s) namePath v) s;
          s2 = notifyObservers prevStore (Some [namePath]) (ValueUpdate Internal) s1;
          s3 = notifyWatch [namePath] s2;
          (s4, childrenFields) = triggerDependenciesUpdate prevStore namePath s3;
          s5 = (if onValuesChange s4
                then emit [OnValuesChange (cloneByNamePathList (generation s4) (store s4) [namePath])
                             (getFieldsValue s4 None)] s4
                else s4)
      in triggerOnFieldsChange (namePath # childrenFields) None s5)"

datatype reducerAction =
    UpdateValueAction namePath storeValue
  | ValidateFieldAction namePath string

definition dispatch :: "reducerAction \<Rightarrow> formStore \<Rightarrow> formStore" where
  "dispatch action s =
     (case action of
        UpdateValueAction namePath v \<Rightarrow> updateValue (Path namePath) v s
      | ValidateFieldAction namePath trig \<Rightarrow>
          fst (validateFields (Some [Path namePath]) \<lparr>triggerName = Some trig, recursive = False\<rparr> s))"

definition isMergedPreserve :: "formStore \<Rightarrow> bool option \<Rightarrow> bool" where
  "isMergedPreserve s fieldPreserve =
     (case fieldPreserve of
        Some b \<Rightarrow> b
      | None \<Rightarrow> (case formPreserve s of Some b \<Rightarrow> b | None \<Rightarrow> True))"

text \<open>
  The function \<open>registerField\<close> returns, called for the field at position \<open>i\<close>:
  \<open>(isListField, preserve, subNamePath) => ...\<close>.
\<close>

definition unregisterField ::
  "nat \<Rightarrow> bool option \<Rightarrow> bool option \<Rightarrow> namePath \<Rightarrow> formStore \<Rightarrow> formStore" where
  "unregisterField i listField fieldPreserve subNamePath s =
     (let namePath = name (fieldEntities s ! i);
          s1 = s\<lparr>fieldEntities := take i (fieldEntities s) @ drop (Suc i) (fieldEntities s)\<rparr>
      in if \<not> isMergedPreserve s1 fieldPreserve \<and> (\<not> truthy listField \<or> length subNamePath > 1)
         then
           (let defaultValue = (if truthy listField then Undefined else getInitialValue s1 namePath)
            in if namePath \<noteq> [] \<and> getFieldValue s1 namePath \<noteq> defaultValue \<and>
                  list_all (\<lambda>fld. \<not> matchNamePath (name fld) namePath) (fieldEntities s1)
               then
                 (let prevStore = store s1;
                      s2 = updateStore (setValue (generation s1) prevStore namePath defaultValue) s1;
                      s3 = notifyObservers prevStore (Some [namePath]) Remove s2;
                      s4 = fst (triggerDependenciesUpdate prevStore namePath s3)
                  in notifyWatch [namePath] s4)
               else notifyWatch [namePath] s1)
         else notifyWatch [namePath] s1)"

section \<open>A concrete form\<close>

text \<open>
  A mounted, untouched field without props other than its name, and a subscribable store
  without values, callbacks or watchers over given fields: the starting points of the
  concrete runs below. The store is the one of generation 0; the initial values are an
  object of the caller.
\<close>

definition exampleField :: "namePath \<Rightarrow> field" where
  "exampleField p =
     \<lparr>name = p, dependencies = [], initialValue = Undefined, rules = [], shouldUpdate = None,
      onReset = False, validateFirst = VFalse, messageVariables = [], isListField = None,
      preserve = None, mounted = True, touched = False, dirty = False, validatePromise = None,
      fieldErrors = [], fieldWarnings = [], resetCount = 0, effects = []\<rparr>"

definition exampleForm :: "field list \<Rightarrow> formStore" where
  "exampleForm fs =
     \<lparr>store = emptyObject (Made 0 []), initialValues = emptyObject (Given 0), fieldEntities = fs,
      subscribable = True, watchList = [], onValuesChange = False, onFieldsChange = False,
      formPreserve = None, lastValidatePromise = None, nextPromise = 0, generation = 1,
      trace = []\<rparr>"

text \<open>The object \<open>{ [k]: v }\<close> with the identity \<open>r\<close>.\<close>

definition objectWith :: "ref \<Rightarrow> seg \<Rightarrow> storeValue \<Rightarrow> storeValue" where
  "objectWith r k v = Obj r ((\<lambda>_. Undefined)(k := v))"

text \<open>
  A form whose field \<open>a\<close> was never touched and holds the array \<open>[1]\<close>, made for the
  store of generation 0.
\<close>

definition listForm :: formStore where
  "listForm =
     (exampleForm [exampleField [Name ''a'']])
       \<lparr>store := objectWith (Made 0 []) (Name ''a'')
                   (objectWith (Made 0 [Name ''a'']) (Index 0) (Atom 1))\<rparr>"

text \<open>
  A form that does not notify its fields (its children are a render function), with a field
  \<open>a\<close> that was never touched and shows an error.
\<close>

definition silentForm :: formStore where
  "silentForm =
     (exampleForm [(exampleField [Name ''a''])\<lparr>fieldErrors := [''required'']\<rparr>])
       \<lparr>subscribable := False\<rparr>"

text \<open>A form with one field \<open>a\<close> that has a rule.\<close>

definition formWithRules :: formStore where
  "formWithRules = exampleForm [(exampleField [Name ''a''])\<lparr>rules := [passRule]\<rparr>]"

text \<open>
  A form whose field \<open>a\<close> declares the initial value 2 while the form declares 1, with the
  live value 5; and a form whose field \<open>a\<close>, not preserved, declares the initial value 2
  and the form none.
\<close>

definition conflictForm :: formStore where
  "conflictForm =
     (exampleForm [(exampleField [Name ''a''])\<lparr>initialValue := Atom 2\<rparr>])
       \<lparr>store := objectWith (Made 0 []) (Name ''a'') (Atom 5),
        initialValues := objectWith (Given 0) (Name ''a'') (Atom 1)\<rparr>"

definition declaredForm :: formStore where
  "declaredForm =
     (exampleForm [(exampleField [Name ''a''])\<lparr>initialValue := Atom 2, preserve := Some False\<rparr>])
       \<lparr>store := objectWith (Made 0 []) (Name ''a'') (Atom 5)\<rparr>"

text \<open>
  A form in which the field \<open>b\<close> depends on \<open>a\<close>, declares an initial value (which
  the store holds) and has a rule, and was never touched or validated; and a form with the chain of dependencies
  \<open>a\<close>, \<open>b\<close>, \<open>c\<close>, \<open>d\<close> in which \<open>b\<close> and \<open>d\<close> are dirty and \<open>c\<close> is not.
\<close>

definition dependentForm :: formStore where
  "dependentForm =
     (exampleForm
        [exampleField [Name ''a''],
         (exampleField [Name ''b''])\<lparr>dependencies := [[Name ''a'']], initialValue := Atom 1,
                                     rules := [passRule]\<rparr>])
       \<lparr>store := objectWith (Made 0 []) (Name ''b'') (Atom 1)\<rparr>"

definition chainForm :: formStore where
  "chainForm =
     exampleForm
       [exampleField [Name ''a''],
        (exampleField [Name ''b''])\<lparr>dependencies := [[Name ''a'']], dirty := True\<rparr>,
        (exampleField [Name ''c''])\<lparr>dependencies := [[Name ''b'']]\<rparr>,
        (exampleField [Name ''d''])\<lparr>dependencies := [[Name ''c'']], dirty := True\<rparr>]"

text \<open>
  A form with two fields at the path \<open>b\<close>, both with a rule: one depends on \<open>a\<close>
  and is dirty; the other has no dependencies, no initial value and was never touched or
  validated.
\<close>

definition sharedPathForm :: formStore where
  "sharedPathForm =
     exampleForm
       [exampleField [Name ''a''],
        (exampleField [Name ''b''])\<lparr>dependencies := [[Name ''a'']], rules := [passRule], dirty := True\<rparr>,
        (exampleField [Name ''b''])\<lparr>rules := [passRule]\<rparr>]"

section \<open>Notions used in the proofs\<close>

text \<open>The messages a rule evaluation was resolved with; none if it was not.\<close>

definition messagesOf :: "(message list, 'e) promise \<Rightarrow> message list" where
  "messagesOf p = (case p of Resolved errs \<Rightarrow> errs | _ \<Rightarrow> [])"

text \<open>
  What the loop of \<open>validateFields\<close> keeps of the store, and what holds of its entries:
  the field of each entry is registered and waits for the entry's root promise, and the root
  promises were created since \<open>start\<close>.
\<close>

definition loopKeeps :: "formStore \<Rightarrow> formStore \<Rightarrow> bool" where
  "loopKeeps s s' =
     (store s' = store s \<and> initialValues s' = initialValues s \<and> trace s' = trace s \<and>
      subscribable s' = subscribable s \<and> watchList s' = watchList s \<and>
      onValuesChange s' = onValuesChange s \<and> onFieldsChange s' = onFieldsChange s \<and>
      formPreserve s' = formPreserve s \<and> lastValidatePromise s' = lastValidatePromise s \<and>
      generation s' = generation s \<and>
      length (fieldEntities s') = length (fieldEntities s) \<and>
      nextPromise s \<le> nextPromise s')"

definition entriesCurrent :: "nat \<Rightarrow> validateEntry list \<Rightarrow> formStore \<Rightarrow> bool" where
  "entriesCurrent start es s =
     (\<forall>e \<in> set es. ve_field e < length (fieldEntities s) \<and>
        validatePromise (fieldEntities s ! ve_field e) = Some (ve_rootPromise e) \<and>
        start \<le> ve_rootPromise e \<and> ve_rootPromise e < nextPromise s)"

text \<open>The identity of a container.\<close>

fun refOf :: "storeValue \<Rightarrow> ref option" where
  "refOf (Obj r f) = Some r"
| "refOf Undefined = None"
| "refOf (Atom a) = None"

text \<open>
  The fields whose validation a call of \<open>validateFields\<close> with the paths
  \<open>namePathList\<close> starts, among the named ones: those with rules whose path is in the list.
\<close>

definition startsValidation :: "namePath list \<Rightarrow> field list \<Rightarrow> nat \<Rightarrow> bool" where
  "startsValidation namePathList fs i = (rules (fs ! i) \<noteq> [] \<and> name (fs ! i) \<in> set namePathList)"

text \<open>
  A field is cascaded into when \<open>isFieldDirty\<close> holds of it and it has a name. The fields
  the cascade from \<open>root\<close> visits: the dependents of \<open>root\<close>, and the dependents of the
  path of every visited field that is cascaded into.
\<close>

definition fieldCascades :: "storeValue \<Rightarrow> field list \<Rightarrow> nat \<Rightarrow> bool" where
  "fieldCascades iv fs i = (isFieldDirty iv (fs ! i) \<and> name (fs ! i) \<noteq> [])"

inductive_set cascadeFields :: "storeValue \<Rightarrow> field list \<Rightarrow> namePath \<Rightarrow> nat set"
  for iv :: storeValue and fs :: "field list" and root :: namePath where
  direct: "i \<in> set (dependencies2fields fs root) \<Longrightarrow> i \<in> cascadeFields iv fs root"
| through: "j \<in> cascadeFields iv fs root \<Longrightarrow> fieldCascades iv fs j \<Longrightarrow>
            i \<in> set (dependencies2fields fs (name (fs ! j))) \<Longrightarrow> i \<in> cascadeFields iv fs root"

text \<open>
  A set of fields is closed when it contains the dependents of each of its members that is
  cascaded into. The relation between the state before and after a part of the traversal:
  the visited fields grow by \<open>new\<close> without repetition, the paths of the new fields that
  are cascaded into are appended in order, their dependents have been visited, and the new
  fields lie in \<open>R\<close>.
\<close>

definition closedUnder :: "storeValue \<Rightarrow> field list \<Rightarrow> nat set \<Rightarrow> bool" where
  "closedUnder iv fs R =
     (\<forall>j \<in> R. fieldCascades iv fs j \<longrightarrow> set (dependencies2fields fs (name (fs ! j))) \<subseteq> R)"

definition cascadePost ::
  "storeValue \<Rightarrow> field list \<Rightarrow> nat set \<Rightarrow> nat list \<times> namePath list \<Rightarrow> nat list \<times> namePath list \<Rightarrow> bool" where
  "cascadePost iv fs R st st' =
     (\<exists>new. fst st' = fst st @ new \<and> distinct (fst st') \<and> set (fst st') \<subseteq> {..<length fs} \<and>
        snd st' = snd st @ map (\<lambda>j. name (fs ! j)) (filter (fieldCascades iv fs) new) \<and>
        (\<forall>j \<in> set new. fieldCascades iv fs j \<longrightarrow>
           set (dependencies2fields fs (name (fs ! j))) \<subseteq> set (fst st')) \<and>
        set new \<subseteq> R)"

section \<open>Properties of the rule engine\<close>

lemmas example_defs =
  exampleLib_def failRule_def passRule_def throwRule_def silentRule_def arrayRule_def
  filledRules_def annotateRules_def sortBy_def compareRules_def indexOf_def truthy_def
  validateRules_def libErrors_def guardValidator_def wrapValidator_def CODE_LOGIC_ERROR_def
  thenMap_def fulfilment_def isRejected_def isResolved_def

subsection \<open>Rule order\<close>

lemma insertBy_front:
  "(\<forall>y \<in> set ys. cmp x y \<le> 0) \<Longrightarrow> insertBy cmp x ys = x # ys"
  by (cases ys) simp_all

lemma insertBy_skip:
  "(\<forall>a \<in> set as. 0 < cmp x a) \<Longrightarrow> insertBy cmp x (as @ bs) = as @ insertBy cmp x bs"
  by (induction as) simp_all

lemma sortBy_Cons: "sortBy cmp (x # xs) = insertBy cmp x (sortBy cmp xs)"
  by (simp add: sortBy_def)

lemma sortBy_compareRules:
  "sorted_wrt (\<lambda>a b. indexOf a < indexOf b) xs \<Longrightarrow>
   sortBy compareRules xs =
     filter (\<lambda>r. \<not> truthy (warningOnly r)) xs @ filter (\<lambda>r. truthy (warningOnly r)) xs"
proof (induction xs)
  case Nil
  show ?case by (simp add: sortBy_def)
next
  case (Cons x xs)
  let ?A = "filter (\<lambda>r. \<not> truthy (warningOnly r)) xs"
  let ?B = "filter (\<lambda>r. truthy (warningOnly r)) xs"
  from Cons.prems have later: "\<forall>y \<in> set xs. indexOf x < indexOf y" and "sorted_wrt (\<lambda>a b. indexOf a < indexOf b) xs"
    by simp_all
  with Cons.IH have IH: "sortBy compareRules xs = ?A @ ?B" by simp
  show ?case
  proof (cases "truthy (warningOnly x)")
    case False
    have "\<forall>y \<in> set (?A @ ?B). compareRules x y \<le> 0"
      using later False by (auto simp: compareRules_def)
    then have "insertBy compareRules x (?A @ ?B) = x # ?A @ ?B"
      by (rule insertBy_front)
    with False IH show ?thesis by (simp add: sortBy_Cons)
  next
    case True
    have "\<forall>a \<in> set ?A. 0 < compareRules x a"
      using True by (auto simp: compareRules_def)
    then have "insertBy compareRules x (?A @ ?B) = ?A @ insertBy compareRules x ?B"
      by (rule insertBy_skip)
    moreover have "\<forall>y \<in> set ?B. compareRules x y \<le> 0"
      using later True by (auto simp: compareRules_def)
    then have "insertBy compareRules x ?B = x # ?B"
      by (rule insertBy_front)
    ultimately show ?thesis using True IH by (simp add: sortBy_Cons)
  qed
qed

lemma fillRule_sel [simp]:
  "ruleIndex (fillRule r k) = Some k"
  "warningOnly (fillRule r k) = warningOnly r"
  "indexOf (fillRule r k) = int k"
  by (cases r; simp add: indexOf_def)+

lemma annotateRules_index: "map ruleIndex (annotateRules rs) = map Some [0..<length rs]"
  by (rule nth_equalityI) (simp_all add: annotateRules_def)

lemma annotateRules_warningOnly: "map warningOnly (annotateRules rs) = map warningOnly rs"
  by (rule nth_equalityI) (simp_all add: annotateRules_def)

lemma annotateRules_sorted: "sorted_wrt (\<lambda>a b. indexOf a < indexOf b) (annotateRules rs)"
  by (simp add: sorted_wrt_iff_nth_less annotateRules_def)

text \<open>
  C7. The rule engine annotates each rule with its original index and then sorts the
  list: the result is the non-warning rules followed by the warning-only rules, each group
  in its original order.
\<close>

theorem filledRules_partition:
  "filledRules rs =
     filter (\<lambda>r. \<not> truthy (warningOnly r)) (annotateRules rs) @
     filter (\<lambda>r. truthy (warningOnly r)) (annotateRules rs)
   \<and> map ruleIndex (annotateRules rs) = map Some [0..<length rs]
   \<and> map warningOnly (annotateRules rs) = map warningOnly rs"
  unfolding filledRules_def
  using sortBy_compareRules [OF annotateRules_sorted] annotateRules_index annotateRules_warningOnly
  by blast

subsection \<open>Scheduling modes\<close>

lemma jsError_TypeError: "e = TypeError"
  by (cases e) simp

lemma serialValidate_stops:
  "(\<forall>r \<in> set pre. ev r = Resolved []) \<Longrightarrow> ev a = Resolved errs \<Longrightarrow> errs \<noteq> [] \<Longrightarrow>
   serialValidate ev (pre @ a # post) = (Rejected (RuleErrors [RuleError errs a]), pre @ [a])"
  by (induction pre) simp_all

lemma serialValidate_find:
  "fst (serialValidate ev rs) =
     (case find (\<lambda>r. ev r \<noteq> Resolved []) rs of
        None \<Rightarrow> Resolved []
      | Some r \<Rightarrow>
          (case ev r of
             Resolved errs \<Rightarrow> Rejected (RuleErrors [RuleError errs r])
           | Rejected e \<Rightarrow> Pending
           | Pending \<Rightarrow> Pending))"
  by (induction rs) (auto split: promise.splits prod.splits)

lemma firstFailedStep_Some: "firstFailedStep n (Some v, c) e = (Some v, Suc c)"
  by (simp add: firstFailedStep_def resolveOnce_def Let_def)

lemma firstFailedStep_None:
  "firstFailedStep n (None, c) e =
     (if errors e \<noteq> [] then Some [e] else if Suc c = n then Some [] else None, Suc c)"
  by (simp add: firstFailedStep_def resolveOnce_def Let_def)

lemma firstFailed_settled:
  "fst (foldl (firstFailedStep n) (Some v, c) xs) = Some v"
  by (induction xs arbitrary: c) (simp_all add: firstFailedStep_Some)

lemma firstFailed_fold:
  "c + length xs \<le> n \<Longrightarrow>
   fst (foldl (firstFailedStep n) (None, c) xs) =
     (case find (\<lambda>e. errors e \<noteq> []) xs of
        Some e \<Rightarrow> Some [e]
      | None \<Rightarrow> if c + length xs = n \<and> xs \<noteq> [] then Some [] else None)"
proof (induction xs arbitrary: c)
  case Nil
  show ?case by simp
next
  case (Cons x xs)
  show ?case
  proof (cases "errors x \<noteq> []")
    case True
    then show ?thesis
      by (simp add: firstFailedStep_None firstFailed_settled)
  next
    case False
    show ?thesis
    proof (cases "Suc c = n")
      case True
      with Cons.prems have "xs = []" by (cases xs) auto
      with True False show ?thesis by (simp add: firstFailedStep_None)
    next
      case neq: False
      from Cons.prems have "Suc c + length xs \<le> n" by simp
      from Cons.IH [OF this] False neq show ?thesis
        by (auto simp add: firstFailedStep_None split: option.splits)
    qed
  qed
qed

lemma finishOnFirstFailed_find:
  "length xs \<le> n \<Longrightarrow>
   finishOnFirstFailed n xs =
     (case find (\<lambda>e. errors e \<noteq> []) xs of
        Some e \<Rightarrow> Resolved [e]
      | None \<Rightarrow> if length xs = n \<and> xs \<noteq> [] then Resolved [] else Pending)"
  unfolding finishOnFirstFailed_def
  using firstFailed_fold [of 0 xs n]
  by (auto split: option.splits)

lemma length_filter_all: "length (filter P xs) = length xs \<longleftrightarrow> (\<forall>x \<in> set xs. P x)"
proof -
  have "length (filter P xs) = length xs \<longleftrightarrow> length (filter (\<lambda>x. \<not> P x) xs) = 0"
    using sum_length_filter_compl [of P xs] by arith
  then show ?thesis by (simp add: filter_empty_conv)
qed

lemma zip_map_self: "zip xs (map f xs) = map (\<lambda>x. (x, f x)) xs"
  by (induction xs) simp_all

lemma completionOrder_length:
  "length (completionOrder delay started) = length (filter (\<lambda>p. isResolved (snd p)) started)"
proof -
  have "length (completionOrder delay started) =
        length (filter (\<lambda>p. fulfilment (snd p) \<noteq> None) (sort_key (\<lambda>p. delay (fst p)) started))"
    by (simp add: completionOrder_def List.map_filter_def)
  also have "\<dots> = length (filter (\<lambda>p. fulfilment (snd p) \<noteq> None) started)"
    by (simp add: filter_sort)
  also have "\<dots> = length (filter (\<lambda>p. isResolved (snd p)) started)"
    by (rule arg_cong [where f = length], rule filter_cong)
       (auto simp: fulfilment_def isResolved_def split: promise.splits)
  finally show ?thesis .
qed

lemma completionOrder_all:
  "length (completionOrder delay (zip fr (map f fr))) = length fr \<longleftrightarrow>
   list_all (\<lambda>r. isResolved (f r)) fr"
proof -
  have "length (filter (\<lambda>p. isResolved (snd p)) (zip fr (map f fr))) = length (zip fr (map f fr)) \<longleftrightarrow>
        (\<forall>p \<in> set (zip fr (map f fr)). isResolved (snd p))"
    by (rule length_filter_all)
  also have "\<dots> \<longleftrightarrow> list_all (\<lambda>r. isResolved (f r)) fr"
    by (simp add: list_all_iff zip_map_self)
  finally show ?thesis by (simp add: completionOrder_length)
qed

lemma promiseAll_outcome:
  fixes ps :: "('a, jsError) promise list"
  shows "promiseAll ps =
     (if list_ex isRejected ps then Rejected TypeError
      else if list_ex (\<lambda>p. p = Pending) ps then Pending
      else Resolved (map (\<lambda>p. the (fulfilment p)) ps))"
proof (induction ps)
  case Nil
  show ?case by simp
next
  case (Cons p ps)
  show ?case
  proof (cases p)
    case Pending
    with Cons show ?thesis by (simp add: isRejected_def)
  next
    case (Resolved x)
    with Cons show ?thesis by (simp add: isRejected_def thenMap_def fulfilment_def)
  next
    case (Rejected e)
    then show ?thesis using jsError_TypeError [of e] by (simp add: isRejected_def)
  qed
qed

lemma thenMap_sel [simp]:
  "isRejected (thenMap g p) = isRejected p"
  "isResolved (thenMap g p) = isResolved p"
  "(thenMap g p = Pending) = (p = Pending)"
  "(Pending = thenMap g p) = (p = Pending)"
  "fulfilment (thenMap g p) = map_option g (fulfilment p)"
  by (cases p; simp add: thenMap_def isRejected_def isResolved_def fulfilment_def)+

lemma all_outcome:
  fixes ev :: "'v rule \<Rightarrow> (message list, jsError) promise"
  shows "finishOnAllFailed (map (\<lambda>r. thenMap (\<lambda>errs. RuleError errs r) (ev r)) fr) =
     (if list_ex (\<lambda>r. isRejected (ev r)) fr then Rejected TypeError
      else if list_ex (\<lambda>r. ev r = Pending) fr then Pending
      else Resolved (map (\<lambda>r. RuleError (messagesOf (ev r)) r) fr))"
proof -
  let ?ps = "map (\<lambda>r. thenMap (\<lambda>errs. RuleError errs r) (ev r)) fr"
  have rej: "list_ex isRejected ?ps = list_ex (\<lambda>r. isRejected (ev r)) fr"
    by (simp add: list_ex_iff)
  have pen: "list_ex (\<lambda>p. p = Pending) ?ps = list_ex (\<lambda>r. ev r = Pending) fr"
    by (auto simp add: list_ex_iff)
  have val: "map (\<lambda>p. the (fulfilment p)) ?ps = map (\<lambda>r. RuleError (messagesOf (ev r)) r) fr"
    if "\<not> list_ex (\<lambda>r. isRejected (ev r)) fr" and "\<not> list_ex (\<lambda>r. ev r = Pending) fr"
  proof -
    have "the (fulfilment (thenMap (\<lambda>errs. RuleError errs r) (ev r))) = RuleError (messagesOf (ev r)) r"
      if "r \<in> set fr" for r
      using that \<open>\<not> list_ex (\<lambda>r. isRejected (ev r)) fr\<close> \<open>\<not> list_ex (\<lambda>r. ev r = Pending) fr\<close>
      by (cases "ev r") (auto simp: list_ex_iff isRejected_def fulfilment_def messagesOf_def thenMap_def)
    then show ?thesis by simp
  qed
  show ?thesis
    unfolding finishOnAllFailed_def promiseAll_outcome [of ?ps] rej pen
    using val by (simp add: thenMap_def)
qed

lemma first_outcome:
  "finishOnFirstFailed (length (map f fr)) (completionOrder delay (zip fr (map f fr))) =
     (case find (\<lambda>e. errors e \<noteq> []) (completionOrder delay (zip fr (map f fr))) of
        Some e \<Rightarrow> Resolved [e]
      | None \<Rightarrow> if fr \<noteq> [] \<and> list_all (\<lambda>r. isResolved (f r)) fr then Resolved [] else Pending)"
proof -
  let ?done = "completionOrder delay (zip fr (map f fr))"
  have le: "length ?done \<le> length (map f fr)"
    using length_filter_le [of "\<lambda>p. isResolved (snd p)" "zip fr (map f fr)"]
    by (simp add: completionOrder_length)
  have all: "(length ?done = length (map f fr) \<and> ?done \<noteq> []) \<longleftrightarrow>
        (fr \<noteq> [] \<and> list_all (\<lambda>r. isResolved (f r)) fr)"
    using completionOrder_all [of delay fr f] by (cases fr) auto
  show ?thesis
    unfolding finishOnFirstFailed_find [OF le] all ..
qed

text \<open>
  C3. With \<open>validateFirst === true\<close> the reordered rules are evaluated one at a time,
  in order; the promise rejects with exactly the first rule that produces an error message,
  and no later rule is evaluated.
\<close>

theorem serial_first_failure:
  assumes "filledRules rs = pre @ a # post"
    and "\<forall>r \<in> set pre.
           validateRule lib dflt elems ftext proto vars (join_dot (map seg_str np)) val r = Resolved []"
    and "validateRule lib dflt elems ftext proto vars (join_dot (map seg_str np)) val a = Resolved errs"
    and "errs \<noteq> []"
  shows "validateRules lib dflt elems ftext proto delay np val rs VTrue vars =
           (Rejected (RuleErrors [RuleError errs a]), pre @ [a])"
  using assms by (simp add: validateRules_def serialValidate_stops)

theorem serial_first_failure_witness:
  "validateRules exampleLib ''d'' (\<lambda>_. None) (\<lambda>_. ''f'') Map.empty (\<lambda>_. 0) [Name ''f''] (0::nat)
     [failRule ''A fails'', failRule ''B fails''] VTrue [] =
   (Rejected (RuleErrors [RuleError [''A fails''] (fillRule (failRule ''A fails'') 0)]),
    [fillRule (failRule ''A fails'') 0])"
  using serial_first_failure [where rs = "[failRule ''A fails'', failRule ''B fails'']" and pre = "[]"
     and a = "fillRule (failRule ''A fails'') 0" and post = "[fillRule (failRule ''B fails'') 1]"
     and lib = exampleLib and dflt = "''d''" and elems = "\<lambda>_. None" and ftext = "\<lambda>_. ''f''"
     and proto = Map.empty and vars = "[]" and np = "[Name ''f'']" and val = "0::nat"
     and errs = "[''A fails'']" and delay = "\<lambda>_. 0"]
  by (simp add: example_defs)

lemma outcome_by_mode:
  "fst (validateRules lib dflt elems ftext proto delay np val rs mode vars) =
     (let ev = validateRule lib dflt elems ftext proto vars (join_dot (map seg_str np)) val;
          fr = filledRules rs
      in case mode of
           VTrue \<Rightarrow>
             (case find (\<lambda>r. ev r \<noteq> Resolved []) fr of
                None \<Rightarrow> Resolved []
              | Some r \<Rightarrow>
                  (case ev r of
                     Resolved errs \<Rightarrow> Rejected (RuleErrors [RuleError errs r])
                   | Rejected e \<Rightarrow> Pending
                   | Pending \<Rightarrow> Pending))
         | VFalse \<Rightarrow>
             if list_ex (\<lambda>r. isRejected (ev r)) fr then Rejected (Thrown TypeError)
             else if list_ex (\<lambda>r. ev r = Pending) fr then Pending
             else Rejected (RuleErrors (map (\<lambda>r. RuleError (messagesOf (ev r)) r) fr))
         | VParallel \<Rightarrow>
             (case find (\<lambda>e. errors e \<noteq> [])
                     (completionOrder delay
                        (zip fr (map (\<lambda>r. thenMap (\<lambda>errs. RuleError errs r) (ev r)) fr))) of
                Some e \<Rightarrow> Rejected (RuleErrors [e])
              | None \<Rightarrow>
                  if fr \<noteq> [] \<and> list_all (\<lambda>r. isResolved (ev r)) fr then Rejected (RuleErrors [])
                  else Pending))"
proof (cases mode)
  case VTrue
  then show ?thesis
    by (simp add: validateRules_def serialValidate_find Let_def)
next
  case VFalse
  then show ?thesis
    by (simp add: validateRules_def all_outcome Let_def)
next
  case VParallel
  let ?f = "\<lambda>r. thenMap (\<lambda>errs. RuleError errs r)
             (validateRule lib dflt elems ftext proto vars (join_dot (map seg_str np)) val r)"
  let ?fr = "filledRules rs"
  have "fst (validateRules lib dflt elems ftext proto delay np val rs mode vars) =
        (case finishOnFirstFailed (length (map ?f ?fr)) (completionOrder delay (zip ?fr (map ?f ?fr))) of
           Resolved errs \<Rightarrow> Rejected (RuleErrors errs)
         | Rejected e \<Rightarrow> Rejected (Thrown e)
         | Pending \<Rightarrow> Pending)"
    using VParallel by (simp add: validateRules_def Let_def)
  also have "\<dots> =
        (case find (\<lambda>e. errors e \<noteq> []) (completionOrder delay (zip ?fr (map ?f ?fr))) of
           Some e \<Rightarrow> Rejected (RuleErrors [e])
         | None \<Rightarrow>
             if ?fr \<noteq> [] \<and> list_all (\<lambda>r. isResolved (?f r)) ?fr then Rejected (RuleErrors [])
             else Pending)"
    unfolding first_outcome by (simp split: option.splits)
  finally show ?thesis
    using VParallel by (simp add: Let_def)
qed

text \<open>
  C2, as the code has it. An evaluation of a rule resolves with its messages, never settles,
  or throws. The serial mode resolves with the empty list when every evaluation resolves
  without a message; it rejects with the one rule error of the first rule whose evaluation
  does not, if that one resolves, and stays pending if that one never settles or throws. The
  two parallel modes never resolve. Collecting all, the promise is rejected with the thrown
  error if an evaluation throws, stays pending if none throws and one never settles, and is
  otherwise rejected with the results of all rules in rule order (a passing rule with an
  empty list of errors). With \<open>'parallel'\<close> it is rejected with the first rule, in order
  of completion, that reports errors; without one it is rejected with the empty list if there
  are rules and every evaluation resolves, and stays pending otherwise. The wrapper of
  \<open>validateFields\<close> around a field's promise takes a rejection without error messages,
  and one with a thrown error, for a success.
\<close>

theorem validateRules_outcome:
  "fst (validateRules lib dflt elems ftext proto delay np val rs mode vars) =
     (let ev = validateRule lib dflt elems ftext proto vars (join_dot (map seg_str np)) val;
          fr = filledRules rs
      in case mode of
           VTrue \<Rightarrow>
             (case find (\<lambda>r. ev r \<noteq> Resolved []) fr of
                None \<Rightarrow> Resolved []
              | Some r \<Rightarrow>
                  (case ev r of
                     Resolved errs \<Rightarrow> Rejected (RuleErrors [RuleError errs r])
                   | Rejected e \<Rightarrow> Pending
                   | Pending \<Rightarrow> Pending))
         | VFalse \<Rightarrow>
             if list_ex (\<lambda>r. isRejected (ev r)) fr then Rejected (Thrown TypeError)
             else if list_ex (\<lambda>r. ev r = Pending) fr then Pending
             else Rejected (RuleErrors (map (\<lambda>r. RuleError (messagesOf (ev r)) r) fr))
         | VParallel \<Rightarrow>
             (case find (\<lambda>e. errors e \<noteq> [])
                     (completionOrder delay
                        (zip fr (map (\<lambda>r. thenMap (\<lambda>errs. RuleError errs r) (ev r)) fr))) of
                Some e \<Rightarrow> Rejected (RuleErrors [e])
              | None \<Rightarrow>
                  if fr \<noteq> [] \<and> list_all (\<lambda>r. isResolved (ev r)) fr then Rejected (RuleErrors [])
                  else Pending))
   \<and> fieldResult np (Rejected (RuleErrors es)) =
       (if concat (map errors (filter (\<lambda>e. \<not> truthy (warningOnly (rule e))) es)) = []
        then Resolved \<lparr>fe_name = np, fe_errors = [],
               fe_warnings = concat (map errors (filter (\<lambda>e. truthy (warningOnly (rule e))) es))\<rparr>
        else Rejected \<lparr>fe_name = np,
               fe_errors = concat (map errors (filter (\<lambda>e. \<not> truthy (warningOnly (rule e))) es)),
               fe_warnings = concat (map errors (filter (\<lambda>e. truthy (warningOnly (rule e))) es))\<rparr>)
   \<and> fieldResult np (Rejected (Thrown e)) = Resolved \<lparr>fe_name = np, fe_errors = [], fe_warnings = []\<rparr>"
proof -
  have "fieldResult np (Rejected (RuleErrors es)) =
       (if concat (map errors (filter (\<lambda>e. \<not> truthy (warningOnly (rule e))) es)) = []
        then Resolved \<lparr>fe_name = np, fe_errors = [],
               fe_warnings = concat (map errors (filter (\<lambda>e. truthy (warningOnly (rule e))) es))\<rparr>
        else Rejected \<lparr>fe_name = np,
               fe_errors = concat (map errors (filter (\<lambda>e. \<not> truthy (warningOnly (rule e))) es)),
               fe_warnings = concat (map errors (filter (\<lambda>e. truthy (warningOnly (rule e))) es))\<rparr>)"
    by (simp add: fieldResult_def Let_def)
  moreover have "fieldResult np (Rejected (Thrown e)) =
       Resolved \<lparr>fe_name = np, fe_errors = [], fe_warnings = []\<rparr>"
    by (simp add: fieldResult_def)
  ultimately show ?thesis
    using outcome_by_mode [of lib dflt elems ftext proto delay np val rs mode vars] by blast
qed

theorem validateRules_outcome_witness:
  "fst (validateRules exampleLib ''d'' (\<lambda>_. None) (\<lambda>_. ''f'') Map.empty (\<lambda>_. 0) [Name ''f''] (0::nat)
          [passRule, failRule ''B fails''] VFalse []) =
   Rejected (RuleErrors [RuleError [] (fillRule passRule 0),
                         RuleError [''B fails''] (fillRule (failRule ''B fails'') 1)])"
  using validateRules_outcome [where rs = "[passRule, failRule ''B fails'']" and lib = exampleLib
     and dflt = "''d''" and elems = "\<lambda>_. None" and ftext = "\<lambda>_. ''f''" and proto = Map.empty
     and vars = "[]" and np = "[Name ''f'']" and val = "0::nat" and delay = "\<lambda>_. 0"
     and mode = VFalse and es = "[]"]
  by (simp add: example_defs messagesOf_def)

text \<open>
  C2 as stated fails. A run in which no rule produces an error message rejects, in both
  parallel modes; collecting all, the rejection lists the passing rules too; in the serial
  mode the rejection holds the first failing rule only. A run in which no rule produces an
  error message does not resolve either when an evaluation never settles, or when it throws:
  a rule of type \<open>array\<close> with a rule for the items, on the value \<open>undefined\<close>.
\<close>

theorem successful_run_rejects:
  "validateRule exampleLib ''d'' (\<lambda>_. None) (\<lambda>_. ''f'') Map.empty [] ''f'' (0::nat) (fillRule passRule 0)
       = Resolved []
   \<and> filledRules [passRule :: nat rule] = [fillRule passRule 0]
   \<and> fst (validateRules exampleLib ''d'' (\<lambda>_. None) (\<lambda>_. ''f'') Map.empty (\<lambda>_. 0) [Name ''f''] (0::nat)
            [passRule] VFalse [])
       = Rejected (RuleErrors [RuleError [] (fillRule passRule 0)])
   \<and> fst (validateRules exampleLib ''d'' (\<lambda>_. None) (\<lambda>_. ''f'') Map.empty (\<lambda>_. 0) [Name ''f''] (0::nat)
            [passRule] VParallel [])
       = Rejected (RuleErrors [])
   \<and> fst (validateRules exampleLib ''d'' (\<lambda>_. None) (\<lambda>_. ''f'') Map.empty (\<lambda>_. 0) [Name ''f''] (0::nat)
            [passRule, failRule ''B fails''] VFalse [])
       = Rejected (RuleErrors [RuleError [] (fillRule passRule 0),
                               RuleError [''B fails''] (fillRule (failRule ''B fails'') 1)])
   \<and> fst (validateRules exampleLib ''d'' (\<lambda>_. None) (\<lambda>_. ''f'') Map.empty (\<lambda>_. 0) [Name ''f''] (0::nat)
            [failRule ''A fails'', failRule ''B fails''] VTrue [])
       = Rejected (RuleErrors [RuleError [''A fails''] (fillRule (failRule ''A fails'') 0)])
   \<and> validateRule exampleLib ''d'' (\<lambda>_. None) (\<lambda>_. ''f'') Map.empty [] ''f'' (0::nat) (fillRule silentRule 0)
       = Pending
   \<and> fst (validateRules exampleLib ''d'' (\<lambda>_. None) (\<lambda>_. ''f'') Map.empty (\<lambda>_. 0) [Name ''f''] (0::nat)
            [silentRule] VTrue [])
       = Pending
   \<and> validateRule exampleLib ''d'' (\<lambda>_. None) (\<lambda>_. ''f'') Map.empty [] ''f'' Undefined (fillRule arrayRule 0)
       = Rejected TypeError
   \<and> fst (validateRules exampleLib ''d'' (\<lambda>_. None) (\<lambda>_. ''f'') Map.empty (\<lambda>_. 0) [Name ''f''] Undefined
            [arrayRule] VTrue [])
       = Pending
   \<and> fst (validateRules exampleLib ''d'' (\<lambda>_. None) (\<lambda>_. ''f'') Map.empty (\<lambda>_. 0) [Name ''f''] Undefined
            [arrayRule] VFalse [])
       = Rejected (Thrown TypeError)"
  by (simp add: example_defs finishOnAllFailed_def finishOnFirstFailed_def completionOrder_def
        firstFailedStep_def resolveOnce_def List.map_filter_def)

subsection \<open>Validators that throw\<close>






section \<open>Properties of the field and of the store\<close>

subsection \<open>Values set from outside\<close>

lemma reRender_state [simp]:
  "touched (reRender f) = touched f" "dirty (reRender f) = dirty f"
  "validatePromise (reRender f) = validatePromise f"
  "fieldErrors (reRender f) = fieldErrors f" "fieldWarnings (reRender f) = fieldWarnings f"
  "name (reRender f) = name f" "mounted (reRender f) = mounted f"
  by (simp_all add: reRender_def)

lemma reRender_effects:
  "effects (reRender f) = effects f @ (if mounted f then [ReRender] else [])"
  by (simp add: reRender_def)

lemma externalUpdate_state [simp]:
  "touched (externalUpdate f) = True" "dirty (externalUpdate f) = True"
  "validatePromise (externalUpdate f) = None"
  "fieldErrors (externalUpdate f) = []" "fieldWarnings (externalUpdate f) = []"
  "name (externalUpdate f) = name f" "mounted (externalUpdate f) = mounted f"
  "shouldUpdate (externalUpdate f) = shouldUpdate f"
  "dependencies (externalUpdate f) = dependencies f"
  "effects (externalUpdate f) = effects f @ [MetaChange True False [] []]"
  by (simp_all add: externalUpdate_def triggerMetaEvent_def isFieldValidating_def)

lemma onStoreChange_external:
  assumes "getValue prevStore (name f) \<noteq> getValue st (name f)"
  shows "\<exists>rendered. onStoreChange fresh prevStore npl (ValueUpdate External) st f =
           (if rendered then reRender (externalUpdate f) else externalUpdate f)"
proof -
  have "isExternalValueUpdate (ValueUpdate External)"
    by (simp add: isExternalValueUpdate_def)
  with assms show ?thesis
    unfolding onStoreChange_def Let_def
    by (auto simp del: reRender_state externalUpdate_state)
qed

lemma onStoreChange_external_state:
  assumes "getValue prevStore (name f) \<noteq> getValue st (name f)"
  shows "touched (onStoreChange fresh prevStore npl (ValueUpdate External) st f)"
    and "dirty (onStoreChange fresh prevStore npl (ValueUpdate External) st f)"
    and "validatePromise (onStoreChange fresh prevStore npl (ValueUpdate External) st f) = None"
    and "fieldErrors (onStoreChange fresh prevStore npl (ValueUpdate External) st f) = []"
    and "fieldWarnings (onStoreChange fresh prevStore npl (ValueUpdate External) st f) = []"
    and "take (Suc (length (effects f)))
           (effects (onStoreChange fresh prevStore npl (ValueUpdate External) st f)) =
         effects f @ [MetaChange True False [] []]"
  using onStoreChange_external [OF assms, of fresh npl]
  by (auto simp: reRender_effects split: if_splits)

lemma emit_sel [simp]:
  "store (emit es s) = store s" "fieldEntities (emit es s) = fieldEntities s"
  "initialValues (emit es s) = initialValues s" "lastValidatePromise (emit es s) = lastValidatePromise s"
  "subscribable (emit es s) = subscribable s" "watchList (emit es s) = watchList s"
  "onValuesChange (emit es s) = onValuesChange s" "onFieldsChange (emit es s) = onFieldsChange s"
  "formPreserve (emit es s) = formPreserve s" "nextPromise (emit es s) = nextPromise s"
  "generation (emit es s) = generation s"
  "trace (emit es s) = trace s @ es"
  by (simp_all add: emit_def)

lemma updateStore_sel [simp]:
  "store (updateStore v s) = v" "fieldEntities (updateStore v s) = fieldEntities s"
  "initialValues (updateStore v s) = initialValues s"
  "lastValidatePromise (updateStore v s) = lastValidatePromise s"
  "subscribable (updateStore v s) = subscribable s" "watchList (updateStore v s) = watchList s"
  "onValuesChange (updateStore v s) = onValuesChange s" "onFieldsChange (updateStore v s) = onFieldsChange s"
  "formPreserve (updateStore v s) = formPreserve s" "nextPromise (updateStore v s) = nextPromise s"
  "generation (updateStore v s) = Suc (generation s)"
  "trace (updateStore v s) = trace s"
  by (simp_all add: updateStore_def)

lemma notifyWatch_sel [simp]:
  "store (notifyWatch ps s) = store s" "fieldEntities (notifyWatch ps s) = fieldEntities s"
  "initialValues (notifyWatch ps s) = initialValues s"
  "lastValidatePromise (notifyWatch ps s) = lastValidatePromise s"
  "subscribable (notifyWatch ps s) = subscribable s" "watchList (notifyWatch ps s) = watchList s"
  "onValuesChange (notifyWatch ps s) = onValuesChange s" "onFieldsChange (notifyWatch ps s) = onFieldsChange s"
  "formPreserve (notifyWatch ps s) = formPreserve s" "nextPromise (notifyWatch ps s) = nextPromise s"
  "generation (notifyWatch ps s) = generation s"
  by (simp_all add: notifyWatch_def)

lemma notifyObservers_sel [simp]:
  "store (notifyObservers prev npl info s) = store s"
  "initialValues (notifyObservers prev npl info s) = initialValues s"
  "lastValidatePromise (notifyObservers prev npl info s) = lastValidatePromise s"
  "subscribable (notifyObservers prev npl info s) = subscribable s"
  "watchList (notifyObservers prev npl info s) = watchList s"
  "onValuesChange (notifyObservers prev npl info s) = onValuesChange s"
  "onFieldsChange (notifyObservers prev npl info s) = onFieldsChange s"
  "formPreserve (notifyObservers prev npl info s) = formPreserve s"
  "generation (notifyObservers prev npl info s) = generation s"
  "length (fieldEntities (notifyObservers prev npl info s)) = length (fieldEntities s)"
  by (simp_all add: notifyObservers_def)

lemma notifyObservers_field:
  "subscribable s \<Longrightarrow> i < length (fieldEntities s) \<Longrightarrow>
   fieldEntities (notifyObservers prev npl info s) ! i =
     onStoreChange (nextPromise s + i) prev npl info (store s) (fieldEntities s ! i)"
  by (simp add: notifyObservers_def)

lemma getValue_Undefined [simp]: "getValue Undefined p = Undefined"
  by (induction p) simp_all

lemma getValue_Atom: "getValue (Atom a) p = (if p = [] then Atom a else Undefined)"
  by (cases p) simp_all

lemma getValue_mergeAt_container:
  "getValue v p = Obj r c \<Longrightarrow> \<exists>c'. getValue (mergeAt prev newRef pre v) p = Obj (newRef (pre @ p)) c'"
proof (induction p arbitrary: prev pre v r c)
  case Nil
  then show ?case by (cases prev) simp_all
next
  case (Cons k ks)
  then obtain r' g where v: "v = Obj r' g"
    by (cases v) (simp_all add: getValue_Atom)
  with Cons.prems have sub: "getValue (g k) ks = Obj r c" by simp
  show ?case
  proof (cases prev)
    case Undefined
    from Cons.IH [OF sub, where prev = Undefined and pre = "pre @ [k]"] show ?thesis
      by (simp add: Undefined v)
  next
    case (Atom a)
    from Cons.IH [OF sub, where prev = Undefined and pre = "pre @ [k]"] show ?thesis
      by (simp add: Atom v)
  next
    case (Obj r0 f)
    from Cons.IH [OF sub, where prev = "f k" and pre = "pre @ [k]"] show ?thesis
      by (simp add: Obj v)
  qed
qed

text \<open>
  A container that \<open>setFieldsValue\<close> is given at a path is copied into the store: what the
  store holds at that path afterwards is a new object, made for the new store.
\<close>

lemma setFieldsValue_new_container:
  "getValue v p = Obj r c \<Longrightarrow>
   \<exists>c'. getValue (store (setFieldsValue (Some v) s)) p = Obj (Made (generation s) p) c'"
  using getValue_mergeAt_container [of v p r c "store s" "Made (generation s)" "[]"]
  by (simp add: setFieldsValue_def Let_def setValues_def)

lemma setFieldsValue_field:
  assumes "subscribable s" and "i < length (fieldEntities s)"
  shows "fieldEntities (setFieldsValue values s) ! i =
      onStoreChange
        (nextPromise s + i) (store s) None (ValueUpdate External) (store (setFieldsValue values s))
        (fieldEntities s ! i)"
proof -
  let ?s1 = "case values of Some v \<Rightarrow> updateStore (setValues (generation s) (store s) v) s | None \<Rightarrow> s"
  have s1: "subscribable ?s1" "fieldEntities ?s1 = fieldEntities s" "nextPromise ?s1 = nextPromise s"
    using assms(1) by (simp_all split: option.splits)
  have st: "store (setFieldsValue values s) = store ?s1"
    by (simp add: setFieldsValue_def Let_def)
  show ?thesis
    unfolding st
    using notifyObservers_field [of ?s1 i "store s" None "ValueUpdate External"] s1 assms(2)
    by (simp add: setFieldsValue_def Let_def)
qed

text \<open>
  C6, as the code has it. When \<open>setFieldsValue\<close> changes the value at the path of a
  registered field of a subscribable store, in the sense of \<open>!==\<close> (a primitive value by
  value, a container by identity), the field is marked touched and dirty (both flags become
  true), its validation promise, errors and warnings are cleared and the meta event fires,
  all before the reaction of the \<open>switch\<close>. A container given to \<open>setFieldsValue\<close> at the
  path changes the value in that sense, whatever its contents: the store holds a new object
  there (the store before holds no object made for the store that follows it).
\<close>

theorem setFieldsValue_changed_field:
  "(subscribable s \<and> i < length (fieldEntities s) \<and>
    getValue (store s) (name (fieldEntities s ! i)) \<noteq>
      getValue (store (setFieldsValue values s)) (name (fieldEntities s ! i)) \<longrightarrow>
      touched (fieldEntities (setFieldsValue values s) ! i)
    \<and> dirty (fieldEntities (setFieldsValue values s) ! i)
    \<and> validatePromise (fieldEntities (setFieldsValue values s) ! i) = None
    \<and> fieldErrors (fieldEntities (setFieldsValue values s) ! i) = []
    \<and> fieldWarnings (fieldEntities (setFieldsValue values s) ! i) = []
    \<and> take (Suc (length (effects (fieldEntities s ! i))))
         (effects (fieldEntities (setFieldsValue values s) ! i)) =
       effects (fieldEntities s ! i) @ [MetaChange True False [] []])
   \<and> (values = Some v \<and> getValue v (name (fieldEntities s ! i)) = Obj r c \<and>
      refOf (getValue (store s) (name (fieldEntities s ! i))) \<noteq>
        Some (Made (generation s) (name (fieldEntities s ! i))) \<longrightarrow>
      getValue (store s) (name (fieldEntities s ! i)) \<noteq>
        getValue (store (setFieldsValue values s)) (name (fieldEntities s ! i)))"
proof -
  have "getValue (store s) (name (fieldEntities s ! i)) \<noteq>
        getValue (store (setFieldsValue values s)) (name (fieldEntities s ! i))"
    if "values = Some v" "getValue v (name (fieldEntities s ! i)) = Obj r c"
      "refOf (getValue (store s) (name (fieldEntities s ! i))) \<noteq>
        Some (Made (generation s) (name (fieldEntities s ! i)))"
  proof -
    from setFieldsValue_new_container [OF that(2), of s] that(1)
    obtain c' where "getValue (store (setFieldsValue values s)) (name (fieldEntities s ! i)) =
        Obj (Made (generation s) (name (fieldEntities s ! i))) c'" by auto
    with that(3) show ?thesis by auto
  qed
  moreover have "touched (fieldEntities (setFieldsValue values s) ! i)
    \<and> dirty (fieldEntities (setFieldsValue values s) ! i)
    \<and> validatePromise (fieldEntities (setFieldsValue values s) ! i) = None
    \<and> fieldErrors (fieldEntities (setFieldsValue values s) ! i) = []
    \<and> fieldWarnings (fieldEntities (setFieldsValue values s) ! i) = []
    \<and> take (Suc (length (effects (fieldEntities s ! i))))
         (effects (fieldEntities (setFieldsValue values s) ! i)) =
       effects (fieldEntities s ! i) @ [MetaChange True False [] []]"
    if "subscribable s" "i < length (fieldEntities s)"
      "getValue (store s) (name (fieldEntities s ! i)) \<noteq>
        getValue (store (setFieldsValue values s)) (name (fieldEntities s ! i))"
    unfolding setFieldsValue_field [OF that(1,2)]
    using onStoreChange_external_state [OF that(3)] by simp
  ultimately show ?thesis by blast
qed

lemmas form_example_defs =
  exampleForm_def exampleField_def objectWith_def emptyObject_def setFieldsValue_def
  notifyObservers_def notifyWatch_def updateStore_def emit_def onStoreChange_def
  isExternalValueUpdate_def externalUpdate_def triggerMetaEvent_def isFieldValidating_def
  reRender_def shouldUpdateTrue_def shouldUpdateSet_def requireUpdate_def containsNamePath_def
  matchNamePath_def setValues_def setValue_def listForm_def

theorem setFieldsValue_changed_field_witness:
  "getValue (getValue (store listForm) [Name ''a'']) [Index 0] = Atom 1
   \<and> getValue (getValue (store (setFieldsValue
        (Some (objectWith (Given 1) (Name ''a'') (objectWith (Given 2) (Index 0) (Atom 1)))) listForm))
        [Name ''a'']) [Index 0] = Atom 1
   \<and> touched (fieldEntities (setFieldsValue
        (Some (objectWith (Given 1) (Name ''a'') (objectWith (Given 2) (Index 0) (Atom 1)))) listForm) ! 0)
   \<and> validatePromise (fieldEntities (setFieldsValue
        (Some (objectWith (Given 1) (Name ''a'') (objectWith (Given 2) (Index 0) (Atom 1)))) listForm) ! 0)
       = None"
  using setFieldsValue_changed_field [of listForm 0
          "Some (objectWith (Given 1) (Name ''a'') (objectWith (Given 2) (Index 0) (Atom 1)))"
          "objectWith (Given 1) (Name ''a'') (objectWith (Given 2) (Index 0) (Atom 1))"
          "Given 2" "(\<lambda>_. Undefined)(Index 0 := Atom 1)"]
  by (simp add: form_example_defs)

text \<open>
  C6 as stated fails: an untouched field whose value is replaced from outside is touched
  and dirty afterwards, not reset to untouched. And in a store that is not subscribable
  the fields are not notified: a field whose value is replaced keeps its state.
\<close>

theorem external_update_sets_touched:
  "touched (fieldEntities (exampleForm [exampleField [Name ''a'']]) ! 0) = False
   \<and> dirty (fieldEntities (exampleForm [exampleField [Name ''a'']]) ! 0) = False
   \<and> getValue (store (exampleForm [exampleField [Name ''a'']])) [Name ''a''] = Undefined
   \<and> getValue (store (setFieldsValue (Some (objectWith (Given 1) (Name ''a'') (Atom 1)))
                          (exampleForm [exampleField [Name ''a'']]))) [Name ''a''] = Atom 1
   \<and> touched (fieldEntities (setFieldsValue (Some (objectWith (Given 1) (Name ''a'') (Atom 1)))
                                (exampleForm [exampleField [Name ''a'']])) ! 0) = True
   \<and> dirty (fieldEntities (setFieldsValue (Some (objectWith (Given 1) (Name ''a'') (Atom 1)))
                              (exampleForm [exampleField [Name ''a'']])) ! 0) = True
   \<and> getValue (store (setFieldsValue (Some (objectWith (Given 1) (Name ''a'') (Atom 1))) silentForm))
         [Name ''a''] = Atom 1
   \<and> fieldErrors (fieldEntities (setFieldsValue (Some (objectWith (Given 1) (Name ''a'') (Atom 1)))
                                    silentForm) ! 0) = [''required'']
   \<and> touched (fieldEntities (setFieldsValue (Some (objectWith (Given 1) (Name ''a'') (Atom 1)))
                                silentForm) ! 0) = False"
  by (simp add: form_example_defs silentForm_def)

subsection \<open>Starting a validation\<close>

lemma validateFieldStep_cases:
  "(\<exists>n. validateFieldStep nl opts (npl, es, s) i = (n, es, s)) \<or>
   (\<exists>n. validateFieldStep nl opts (npl, es, s) i =
         (n,
          es @ [\<lparr>ve_field = i, ve_name = name (fieldEntities s ! i), ve_rootPromise = nextPromise s,
                  ve_value = getValue (store s) (name (fieldEntities s ! i))\<rparr>],
          s\<lparr>fieldEntities := (fieldEntities s)[i := validateRulesStart (nextPromise s) (fieldEntities s ! i)],
            nextPromise := nextPromise s + 1\<rparr>))"
  by (simp add: validateFieldStep_def Let_def)

lemma loopKeeps_refl: "loopKeeps s s"
  by (simp add: loopKeeps_def)

lemma loopKeeps_trans: "loopKeeps s s' \<Longrightarrow> loopKeeps s' s'' \<Longrightarrow> loopKeeps s s''"
  by (simp add: loopKeeps_def)

lemma validateRulesStart_promise [simp]:
  "validatePromise (validateRulesStart r f) = Some r"
  by (simp add: validateRulesStart_def reRender_def triggerMetaEvent_def)

lemma validateFieldStep_keeps:
  assumes "validateFieldStep nl opts (npl, es, s) i = (npl', es', s')"
  shows "loopKeeps s s'"
  using assms validateFieldStep_cases [of nl opts npl es s i]
  by (auto simp: loopKeeps_def)

lemma validateFieldStep_entries:
  assumes step: "validateFieldStep nl opts (npl, es, s) i = (npl', es', s')"
    and i: "i < length (fieldEntities s)"
    and cur: "entriesCurrent start es s"
    and fresh: "\<forall>e \<in> set es. ve_field e \<noteq> i"
    and start: "start \<le> nextPromise s"
  shows "entriesCurrent start es' s' \<and> (\<forall>e \<in> set es'. ve_field e = i \<or> e \<in> set es)"
proof -
  from validateFieldStep_cases [of nl opts npl es s i] step
  consider "es' = es" "s' = s"
    | "es' = es @ [\<lparr>ve_field = i, ve_name = name (fieldEntities s ! i), ve_rootPromise = nextPromise s,
                  ve_value = getValue (store s) (name (fieldEntities s ! i))\<rparr>]"
      "s' = s\<lparr>fieldEntities := (fieldEntities s)[i := validateRulesStart (nextPromise s) (fieldEntities s ! i)],
            nextPromise := nextPromise s + 1\<rparr>"
    by auto
  then show ?thesis
  proof cases
    case 1
    with cur show ?thesis by simp
  next
    case 2
    show ?thesis
      unfolding 2 entriesCurrent_def
      using cur fresh i start
      by (auto simp: entriesCurrent_def nth_list_update)
  qed
qed

lemma validateLoop:
  assumes "foldl (validateFieldStep nl opts) (npl, es, s) is = (npl', es', s')"
    and "\<forall>i \<in> set is. i < length (fieldEntities s)"
    and "distinct is"
    and "entriesCurrent start es s"
    and "\<forall>e \<in> set es. ve_field e \<notin> set is"
    and "start \<le> nextPromise s"
  shows "loopKeeps s s' \<and> entriesCurrent start es' s'"
  using assms
proof (induction "is" arbitrary: npl es s)
  case Nil
  then show ?case by (simp add: loopKeeps_refl)
next
  case (Cons i rest)
  obtain n1 e1 s1 where step: "validateFieldStep nl opts (npl, es, s) i = (n1, e1, s1)"
    by (cases "validateFieldStep nl opts (npl, es, s) i") auto
  have keeps: "loopKeeps s s1" using step by (rule validateFieldStep_keeps)
  have ent: "entriesCurrent start e1 s1 \<and> (\<forall>e \<in> set e1. ve_field e = i \<or> e \<in> set es)"
    using step Cons.prems by (intro validateFieldStep_entries [where es = es and s = s]) auto
  have "loopKeeps s1 s' \<and> entriesCurrent start es' s'"
  proof (rule Cons.IH)
    show "foldl (validateFieldStep nl opts) (n1, e1, s1) rest = (npl', es', s')"
      using Cons.prems(1) step by simp
    show "\<forall>i \<in> set rest. i < length (fieldEntities s1)"
      using Cons.prems(2) keeps by (simp add: loopKeeps_def)
    show "distinct rest" using Cons.prems(3) by simp
    show "entriesCurrent start e1 s1" using ent by simp
    show "\<forall>e \<in> set e1. ve_field e \<notin> set rest"
      using ent Cons.prems(3,5) by auto
    show "start \<le> nextPromise s1"
      using Cons.prems(6) keeps by (simp add: loopKeeps_def)
  qed
  with keeps show ?case by (blast intro: loopKeeps_trans)
qed

lemma pureEntities_bound: "\<forall>i \<in> set (pureEntities s). i < length (fieldEntities s)"
  by (simp add: pureEntities_def)

lemma pureEntities_distinct: "distinct (pureEntities s)"
  by (simp add: pureEntities_def)

lemma validateFields_result:
  assumes "validateFields nl opts s = (s', t)"
  shows "store s' = store s" and "initialValues s' = initialValues s" and "trace s' = trace s"
    and "subscribable s' = subscribable s" and "watchList s' = watchList s"
    and "onValuesChange s' = onValuesChange s" and "onFieldsChange s' = onFieldsChange s"
    and "formPreserve s' = formPreserve s"
    and "length (fieldEntities s') = length (fieldEntities s)"
    and "lastValidatePromise s' = Some (summaryPromise t)"
    and "nextPromise s \<le> summaryPromise t" and "summaryPromise t < nextPromise s'"
    and "\<forall>e \<in> set (promiseList t). ve_field e < length (fieldEntities s') \<and>
           validatePromise (fieldEntities s' ! ve_field e) = Some (ve_rootPromise e) \<and>
           nextPromise s \<le> ve_rootPromise e \<and> ve_rootPromise e < summaryPromise t"
    and "generation s' = generation s"
proof -
  let ?init = "case nl of None \<Rightarrow> [] | Some l \<Rightarrow> map getNamePath l"
  obtain n e s1 where loop: "foldl (validateFieldStep nl opts) (?init, [], s) (pureEntities s) = (n, e, s1)"
    by (cases "foldl (validateFieldStep nl opts) (?init, [], s) (pureEntities s)") auto
  have inv: "loopKeeps s s1 \<and> entriesCurrent (nextPromise s) e s1"
    using loop pureEntities_bound pureEntities_distinct
    by (rule validateLoop) (simp_all add: entriesCurrent_def)
  from assms loop have s': "s' = s1\<lparr>lastValidatePromise := Some (nextPromise s1), nextPromise := nextPromise s1 + 1\<rparr>"
    and t: "t = \<lparr>summaryPromise = nextPromise s1, taskNamePathList = n, promiseList = e\<rparr>"
    by (simp_all add: validateFields_def)
  from inv show "store s' = store s" "initialValues s' = initialValues s" "trace s' = trace s"
    "subscribable s' = subscribable s" "watchList s' = watchList s"
    "onValuesChange s' = onValuesChange s" "onFieldsChange s' = onFieldsChange s"
    "formPreserve s' = formPreserve s"
    "length (fieldEntities s') = length (fieldEntities s)"
    "lastValidatePromise s' = Some (summaryPromise t)"
    "nextPromise s \<le> summaryPromise t" "summaryPromise t < nextPromise s'"
    by (simp_all add: s' t loopKeeps_def)
  from inv show "\<forall>e \<in> set (promiseList t). ve_field e < length (fieldEntities s') \<and>
           validatePromise (fieldEntities s' ! ve_field e) = Some (ve_rootPromise e) \<and>
           nextPromise s \<le> ve_rootPromise e \<and> ve_rootPromise e < summaryPromise t"
    by (simp add: s' t entriesCurrent_def)
  from inv show "generation s' = generation s"
    by (simp add: s' loopKeeps_def)
qed

subsection \<open>Superseded validations\<close>

lemma rulesSettled_stale:
  "validatePromise f \<noteq> Some root \<Longrightarrow> rulesSettled root ruleErrors f = f"
  by (simp add: rulesSettled_def)

lemma rulesSettled_current:
  "validatePromise f = Some root \<Longrightarrow>
   fieldErrors (rulesSettled root ruleErrors f) =
     concat (map errors (filter (\<lambda>e. \<not> truthy (warningOnly (rule e))) ruleErrors)) \<and>
   fieldWarnings (rulesSettled root ruleErrors f) =
     concat (map errors (filter (\<lambda>e. truthy (warningOnly (rule e))) ruleErrors)) \<and>
   validatePromise (rulesSettled root ruleErrors f) = None"
  by (simp add: rulesSettled_def triggerMetaEvent_def)

lemma fieldRulesSettled_stale:
  "validatePromise (fieldEntities s ! i) \<noteq> Some root \<Longrightarrow> fieldRulesSettled i root ruleErrors s = s"
  by (simp add: fieldRulesSettled_def rulesSettled_stale)

lemma returnPromise_superseded:
  assumes "lastValidatePromise s \<noteq> Some (summaryPromise t)"
  shows "snd (summarySettled t (Resolved rs) s) =
           Some (RejectedEntity (getFieldsValue s (Some (taskNamePathList t))) [] True)"
    and "snd (summarySettled t (Rejected rs) s) =
           Some (RejectedEntity (getFieldsValue s (Some (taskNamePathList t)))
                   (filter (\<lambda>r. fe_errors r \<noteq> []) rs) True)"
  using assms by (simp_all add: summarySettled_def returnPromise_def promiseValue_def)

lemma returnPromise_latest:
  assumes "lastValidatePromise s = Some (summaryPromise t)"
  shows "snd (summarySettled t (Resolved rs) s) =
           Some (ResolvedValues (getFieldsValue s (Some (taskNamePathList t))))"
    and "snd (summarySettled t (Rejected rs) s) =
           Some (RejectedEntity (getFieldsValue s (Some (taskNamePathList t)))
                   (filter (\<lambda>r. fe_errors r \<noteq> []) rs) False)"
  using assms by (simp_all add: summarySettled_def returnPromise_def promiseValue_def)

text \<open>
  C1. Of two calls of \<open>validateFields\<close>, the second started before the summary promise of
  the first has settled, only the second is \<open>lastValidatePromise\<close>: when the first settles,
  the caller's promise is rejected with \<open>outOfDate = true\<close>, whether the summary was resolved
  or rejected, and never resolved with values; the second resolves with the values or rejects
  with \<open>outOfDate = false\<close>. A field validated by both calls ignores the rule errors of the
  first; in general a settling rule evaluation changes a field only if its root promise is still
  the field's \<open>validatePromise\<close>.
\<close>

theorem superseded_validation_is_discarded:
  assumes first: "validateFields nl1 o1 s = (s1, t1)"
    and second: "validateFields nl2 o2 s1 = (s2, t2)"
  shows "lastValidatePromise s2 = Some (summaryPromise t2)
       \<and> summaryPromise t1 \<noteq> summaryPromise t2
       \<and> snd (summarySettled t1 (Resolved rs) s2) =
           Some (RejectedEntity (getFieldsValue s2 (Some (taskNamePathList t1))) [] True)
       \<and> snd (summarySettled t1 (Rejected rs) s2) =
           Some (RejectedEntity (getFieldsValue s2 (Some (taskNamePathList t1)))
                   (filter (\<lambda>r. fe_errors r \<noteq> []) rs) True)
       \<and> snd (summarySettled t2 (Resolved rs) s2) =
           Some (ResolvedValues (getFieldsValue s2 (Some (taskNamePathList t2))))
       \<and> snd (summarySettled t2 (Rejected rs) s2) =
           Some (RejectedEntity (getFieldsValue s2 (Some (taskNamePathList t2)))
                   (filter (\<lambda>r. fe_errors r \<noteq> []) rs) False)
       \<and> (\<forall>e1 \<in> set (promiseList t1). \<forall>e2 \<in> set (promiseList t2).
             ve_field e2 = ve_field e1 \<longrightarrow>
             fieldRulesSettled (ve_field e1) (ve_rootPromise e1) ruleErrors s2 = s2)
       \<and> (\<forall>e2 \<in> set (promiseList t2).
             fieldErrors (fieldEntities (fieldRulesSettled (ve_field e2) (ve_rootPromise e2) ruleErrors s2)
                            ! ve_field e2) =
               concat (map errors (filter (\<lambda>e. \<not> truthy (warningOnly (rule e))) ruleErrors)))
       \<and> (\<forall>f root. validatePromise f \<noteq> Some root \<longrightarrow> rulesSettled root ruleErrors f = f)"
proof -
  note r1 = validateFields_result [OF first]
  note r2 = validateFields_result [OF second]
  have last: "lastValidatePromise s2 = Some (summaryPromise t2)" by (rule r2(10))
  have lt: "summaryPromise t1 < summaryPromise t2"
    using r1(12) r2(11) by simp
  then have neq: "summaryPromise t1 \<noteq> summaryPromise t2" by simp
  with last have sup: "lastValidatePromise s2 \<noteq> Some (summaryPromise t1)" by simp
  have stale: "fieldRulesSettled (ve_field e1) (ve_rootPromise e1) ruleErrors s2 = s2"
    if e1: "e1 \<in> set (promiseList t1)" and e2: "e2 \<in> set (promiseList t2)"
      and same: "ve_field e2 = ve_field e1" for e1 e2
  proof -
    from r1(13) e1 have "ve_rootPromise e1 < summaryPromise t1" by blast
    moreover from r2(13) e2 have "nextPromise s1 \<le> ve_rootPromise e2"
      and cur: "validatePromise (fieldEntities s2 ! ve_field e2) = Some (ve_rootPromise e2)"
      by blast+
    ultimately have "ve_rootPromise e1 \<noteq> ve_rootPromise e2" using r1(12) by simp
    with cur same show ?thesis by (simp add: fieldRulesSettled_stale)
  qed
  have current: "fieldErrors (fieldEntities (fieldRulesSettled (ve_field e2) (ve_rootPromise e2) ruleErrors s2)
                            ! ve_field e2) =
               concat (map errors (filter (\<lambda>e. \<not> truthy (warningOnly (rule e))) ruleErrors))"
    if e2: "e2 \<in> set (promiseList t2)" for e2
  proof -
    from r2(13) e2 have "ve_field e2 < length (fieldEntities s2)"
      and "validatePromise (fieldEntities s2 ! ve_field e2) = Some (ve_rootPromise e2)"
      by blast+
    then show ?thesis
      using rulesSettled_current [of "fieldEntities s2 ! ve_field e2" "ve_rootPromise e2" ruleErrors]
      by (simp add: fieldRulesSettled_def)
  qed
  show ?thesis
    using last neq returnPromise_superseded [OF sup] returnPromise_latest [OF last]
      stale current rulesSettled_stale
    by blast
qed

lemmas validate_example_defs =
  formWithRules_def exampleForm_def exampleField_def validateFields_def validateFieldStep_def
  pushNamePath_def pureEntities_def noOptions_def validateRulesStart_def reRender_def
  triggerMetaEvent_def isFieldValidating_def containsNamePath_def matchNamePath_def

theorem superseded_validation_is_discarded_witness:
  "summaryPromise (snd (validateFields None noOptions formWithRules)) = 1
   \<and> summaryPromise (snd (validateFields None noOptions (fst (validateFields None noOptions formWithRules)))) = 3
   \<and> snd (summarySettled (snd (validateFields None noOptions formWithRules)) (Resolved [])
             (fst (validateFields None noOptions (fst (validateFields None noOptions formWithRules))))) =
       Some (RejectedEntity
               (getFieldsValue (fst (validateFields None noOptions (fst (validateFields None noOptions formWithRules))))
                  (Some [[Name ''a'']])) [] True)
   \<and> fieldRulesSettled 0 0 [RuleError [''late''] passRule]
         (fst (validateFields None noOptions (fst (validateFields None noOptions formWithRules)))) =
       fst (validateFields None noOptions (fst (validateFields None noOptions formWithRules)))"
proof -
  have t1: "snd (validateFields None noOptions formWithRules) =
      \<lparr>summaryPromise = 1, taskNamePathList = [[Name ''a'']],
       promiseList = [\<lparr>ve_field = 0, ve_name = [Name ''a''], ve_rootPromise = 0, ve_value = Undefined\<rparr>]\<rparr>"
    by (simp add: validate_example_defs emptyObject_def)
  have t2: "snd (validateFields None noOptions (fst (validateFields None noOptions formWithRules))) =
      \<lparr>summaryPromise = 3, taskNamePathList = [[Name ''a'']],
       promiseList = [\<lparr>ve_field = 0, ve_name = [Name ''a''], ve_rootPromise = 2, ve_value = Undefined\<rparr>]\<rparr>"
    by (simp add: validate_example_defs emptyObject_def)
  have h1: "validateFields None noOptions formWithRules =
      (fst (validateFields None noOptions formWithRules), snd (validateFields None noOptions formWithRules))"
    by simp
  have h2: "validateFields None noOptions (fst (validateFields None noOptions formWithRules)) =
      (fst (validateFields None noOptions (fst (validateFields None noOptions formWithRules))),
       snd (validateFields None noOptions (fst (validateFields None noOptions formWithRules))))"
    by simp
  show ?thesis
    using superseded_validation_is_discarded [OF h1 h2, of "[]" "[RuleError [''late''] passRule]"]
    by (simp add: t1 t2)
qed

subsection \<open>The dependency cascade\<close>

lemma dependencies2fields_bound: "set (dependencies2fields fs p) \<subseteq> {..<length fs}"
  by (auto simp: dependencies2fields_def)

lemma cascadePost_refl:
  "distinct (fst st) \<Longrightarrow> set (fst st) \<subseteq> {..<length fs} \<Longrightarrow> cascadePost iv fs R st st"
  unfolding cascadePost_def by (rule exI [of _ "[]"]) simp

lemma cascadePost_trans:
  assumes "cascadePost iv fs R st st1" and "cascadePost iv fs R st1 st2"
  shows "cascadePost iv fs R st st2"
proof -
  from assms(1) obtain n1 where 1: "fst st1 = fst st @ n1"
    "snd st1 = snd st @ map (\<lambda>j. name (fs ! j)) (filter (fieldCascades iv fs) n1)"
    "\<forall>j \<in> set n1. fieldCascades iv fs j \<longrightarrow> set (dependencies2fields fs (name (fs ! j))) \<subseteq> set (fst st1)"
    "set n1 \<subseteq> R"
    unfolding cascadePost_def by blast
  from assms(2) obtain n2 where 2: "fst st2 = fst st1 @ n2" "distinct (fst st2)"
    "set (fst st2) \<subseteq> {..<length fs}"
    "snd st2 = snd st1 @ map (\<lambda>j. name (fs ! j)) (filter (fieldCascades iv fs) n2)"
    "\<forall>j \<in> set n2. fieldCascades iv fs j \<longrightarrow> set (dependencies2fields fs (name (fs ! j))) \<subseteq> set (fst st2)"
    "set n2 \<subseteq> R"
    unfolding cascadePost_def by blast
  have sub: "set (fst st1) \<subseteq> set (fst st2)" using 2(1) by auto
  show ?thesis
    unfolding cascadePost_def
  proof (intro exI [of _ "n1 @ n2"] conjI)
    show "fst st2 = fst st @ n1 @ n2" using 1(1) 2(1) by simp
    show "distinct (fst st2)" by (rule 2(2))
    show "set (fst st2) \<subseteq> {..<length fs}" by (rule 2(3))
    show "snd st2 = snd st @ map (\<lambda>j. name (fs ! j)) (filter (fieldCascades iv fs) (n1 @ n2))"
      using 1(2) 2(4) by simp
    show "\<forall>j \<in> set (n1 @ n2). fieldCascades iv fs j \<longrightarrow>
            set (dependencies2fields fs (name (fs ! j))) \<subseteq> set (fst st2)"
      using 1(3) 2(5) sub by auto
    show "set (n1 @ n2) \<subseteq> R" using 1(4) 2(6) by simp
  qed
qed

lemma cascadePost_mono:
  "cascadePost iv fs R st st' \<Longrightarrow> set (fst st) \<subseteq> set (fst st')"
  unfolding cascadePost_def by auto

lemma cascadePost_visit_one:
  assumes "distinct C" "set C \<subseteq> {..<length fs}" "i < length fs" "i \<notin> set C" "i \<in> R"
    and "\<not> fieldCascades iv fs i"
  shows "cascadePost iv fs R (C, out) (C @ [i], out)"
  unfolding cascadePost_def using assms by (intro exI [of _ "[i]"]) auto

lemma unvisited_less:
  assumes "set C \<subseteq> {..<(n::nat)}" "i < n" "i \<notin> set C"
  shows "card ({..<n} - set (C @ [i])) < card ({..<n} - set C)"
proof -
  have "{..<n} - set (C @ [i]) \<subset> {..<n} - set C" using assms by auto
  then show ?thesis by (intro psubset_card_mono) auto
qed

lemma unvisited_mono:
  "set C \<subseteq> set C' \<Longrightarrow> card ({..<n} - set C') \<le> card ({..<(n::nat)} - set C)"
  by (intro card_mono) auto

lemma visitFields_post:
  assumes fill: "\<And>p C out. distinct C \<Longrightarrow> set C \<subseteq> {..<length fs} \<Longrightarrow>
            card ({..<length fs} - set C) < n \<Longrightarrow> set (dependencies2fields fs p) \<subseteq> R \<Longrightarrow>
            \<exists>st'. fillChildren n iv fs p (C, out) = Some st' \<and> cascadePost iv fs R (C, out) st' \<and>
                  set (dependencies2fields fs p) \<subseteq> set (fst st')"
    and closed: "closedUnder iv fs R"
  shows "distinct C \<Longrightarrow> set C \<subseteq> {..<length fs} \<Longrightarrow> card ({..<length fs} - set C) \<le> n \<Longrightarrow>
         set is \<subseteq> {..<length fs} \<Longrightarrow> set is \<subseteq> R \<Longrightarrow>
         \<exists>st'. visitFields n iv fs is (C, out) = Some st' \<and> cascadePost iv fs R (C, out) st' \<and>
               set is \<subseteq> set (fst st')"
proof (induction "is" arbitrary: C out)
  case Nil
  then show ?case by (simp add: cascadePost_refl)
next
  case (Cons i rest)
  from Cons.prems have i: "i < length fs" "i \<in> R" and rest: "set rest \<subseteq> {..<length fs}" "set rest \<subseteq> R"
    by auto
  show ?case
  proof (cases "i \<in> set C")
    case True
    from Cons.IH [OF Cons.prems(1,2,3) rest, of out]
    obtain st' where "visitFields n iv fs rest (C, out) = Some st'"
      "cascadePost iv fs R (C, out) st'" "set rest \<subseteq> set (fst st')" by blast
    moreover from this(2) True have "i \<in> set (fst st')"
      using cascadePost_mono [of iv fs R "(C, out)" st'] by auto
    moreover have "visitFields n iv fs (i # rest) (C, out) = visitFields n iv fs rest (C, out)"
      using True by simp
    ultimately show ?thesis by (intro exI [of _ st']) simp
  next
    case False
    have d1: "distinct (C @ [i])" using Cons.prems(1) False by simp
    have b1: "set (C @ [i]) \<subseteq> {..<length fs}" using Cons.prems(2) i(1) by simp
    have less: "card ({..<length fs} - set (C @ [i])) < card ({..<length fs} - set C)"
      using Cons.prems(2) i(1) False by (rule unvisited_less)
    show ?thesis
    proof (cases "fieldCascades iv fs i")
      case cascades: True
      let ?p = "name (fs ! i)"
      have dep: "set (dependencies2fields fs ?p) \<subseteq> R"
        using closed i(2) cascades by (simp add: closedUnder_def)
      from less Cons.prems(3) have "card ({..<length fs} - set (C @ [i])) < n" by simp
      from fill [OF d1 b1 this dep, of "out @ [?p]"]
      obtain st1 where st1: "fillChildren n iv fs ?p (C @ [i], out @ [?p]) = Some st1"
        "cascadePost iv fs R (C @ [i], out @ [?p]) st1"
        "set (dependencies2fields fs ?p) \<subseteq> set (fst st1)" by blast
      from st1(2) obtain new where new: "fst st1 = (C @ [i]) @ new" "distinct (fst st1)"
        "set (fst st1) \<subseteq> {..<length fs}"
        "snd st1 = (out @ [?p]) @ map (\<lambda>j. name (fs ! j)) (filter (fieldCascades iv fs) new)"
        "\<forall>j \<in> set new. fieldCascades iv fs j \<longrightarrow>
           set (dependencies2fields fs (name (fs ! j))) \<subseteq> set (fst st1)"
        "set new \<subseteq> R"
        unfolding cascadePost_def by auto
      have first: "cascadePost iv fs R (C, out) st1"
        unfolding cascadePost_def
        using new st1(3) cascades i(2)
        by (intro exI [of _ "i # new"]) auto
      have sub1: "set C \<subseteq> set (fst st1)" using new(1) by auto
      have fuel1: "card ({..<length fs} - set (fst st1)) \<le> n"
        using unvisited_mono [OF sub1, of "length fs"] Cons.prems(3) by simp
      from Cons.IH [OF new(2,3) fuel1 rest, of "snd st1"]
      obtain st2 where st2: "visitFields n iv fs rest st1 = Some st2"
        "cascadePost iv fs R st1 st2" "set rest \<subseteq> set (fst st2)"
        by auto
      have "i \<in> set (fst st2)"
        using cascadePost_mono [OF st2(2)] new(1) by auto
      moreover have "cascadePost iv fs R (C, out) st2"
        using first st2(2) by (rule cascadePost_trans)
      moreover have "visitFields n iv fs (i # rest) (C, out) = Some st2"
        using False cascades st1(1) st2(1) by (simp add: fieldCascades_def)
      ultimately show ?thesis
        using st2(3) by (intro exI [of _ st2]) simp
    next
      case stops: False
      have first: "cascadePost iv fs R (C, out) (C @ [i], out)"
        using Cons.prems(1,2) i(1) False i(2) stops by (rule cascadePost_visit_one)
      have fuel1: "card ({..<length fs} - set (C @ [i])) \<le> n"
        using less Cons.prems(3) by simp
      from Cons.IH [OF d1 b1 fuel1 rest, of out]
      obtain st2 where st2: "visitFields n iv fs rest (C @ [i], out) = Some st2"
        "cascadePost iv fs R (C @ [i], out) st2" "set rest \<subseteq> set (fst st2)"
        by blast
      have "i \<in> set (fst st2)"
        using cascadePost_mono [OF st2(2)] by auto
      moreover have "cascadePost iv fs R (C, out) st2"
        using first st2(2) by (rule cascadePost_trans)
      moreover have "visitFields n iv fs (i # rest) (C, out) = Some st2"
        using False stops st2(1) by (auto simp add: fieldCascades_def)
      ultimately show ?thesis
        using st2(3) by (intro exI [of _ st2]) simp
    qed
  qed
qed

lemma fillChildren_post:
  assumes closed: "closedUnder iv fs R"
  shows "distinct C \<Longrightarrow> set C \<subseteq> {..<length fs} \<Longrightarrow>
         card ({..<length fs} - set C) < n \<Longrightarrow> set (dependencies2fields fs p) \<subseteq> R \<Longrightarrow>
         \<exists>st'. fillChildren n iv fs p (C, out) = Some st' \<and> cascadePost iv fs R (C, out) st' \<and>
               set (dependencies2fields fs p) \<subseteq> set (fst st')"
proof (induction n arbitrary: p C out)
  case 0
  then show ?case by simp
next
  case (Suc n)
  have "\<exists>st'. visitFields n iv fs (dependencies2fields fs p) (C, out) = Some st' \<and>
          cascadePost iv fs R (C, out) st' \<and> set (dependencies2fields fs p) \<subseteq> set (fst st')"
  proof (rule visitFields_post [OF _ closed])
    show "distinct C" "set C \<subseteq> {..<length fs}" by (rule Suc.prems)+
    show "card ({..<length fs} - set C) \<le> n" using Suc.prems(3) by simp
    show "set (dependencies2fields fs p) \<subseteq> {..<length fs}" by (rule dependencies2fields_bound)
    show "set (dependencies2fields fs p) \<subseteq> R" by (rule Suc.prems)
  next
    fix q D o'
    assume "distinct D" "set D \<subseteq> {..<length fs}" "card ({..<length fs} - set D) < n"
      "set (dependencies2fields fs q) \<subseteq> R"
    then show "\<exists>st'. fillChildren n iv fs q (D, o') = Some st' \<and> cascadePost iv fs R (D, o') st' \<and>
                 set (dependencies2fields fs q) \<subseteq> set (fst st')"
      by (rule Suc.IH)
  qed
  then show ?case by simp
qed

lemma cascadeFields_closed: "closedUnder iv fs (cascadeFields iv fs root)"
  unfolding closedUnder_def by (auto intro: cascadeFields.through)

lemma cascade_run:
  "\<exists>children. distinct children \<and> set children = cascadeFields iv fs root \<and>
     fillChildren (Suc (length fs)) iv fs root ([], []) =
       Some (children, map (\<lambda>i. name (fs ! i)) (filter (fieldCascades iv fs) children))"
proof -
  let ?R = "cascadeFields iv fs root"
  have "\<exists>st'. fillChildren (Suc (length fs)) iv fs root ([], []) = Some st' \<and>
          cascadePost iv fs ?R ([], []) st' \<and> set (dependencies2fields fs root) \<subseteq> set (fst st')"
    by (rule fillChildren_post [OF cascadeFields_closed])
       (auto intro: cascadeFields.direct)
  then obtain st' where run: "fillChildren (Suc (length fs)) iv fs root ([], []) = Some st'"
    and post: "cascadePost iv fs ?R ([], []) st'"
    and root: "set (dependencies2fields fs root) \<subseteq> set (fst st')" by blast
  from post have dist: "distinct (fst st')"
    and out: "snd st' = map (\<lambda>j. name (fs ! j)) (filter (fieldCascades iv fs) (fst st'))"
    and closure: "\<forall>j \<in> set (fst st'). fieldCascades iv fs j \<longrightarrow>
           set (dependencies2fields fs (name (fs ! j))) \<subseteq> set (fst st')"
    and sound: "set (fst st') \<subseteq> ?R"
    unfolding cascadePost_def by auto
  have complete: "i \<in> set (fst st')" if "i \<in> ?R" for i
    using that
  proof (induction rule: cascadeFields.induct)
    case (direct i)
    with root show ?case by auto
  next
    case (through j i)
    with closure show ?case by auto
  qed
  have "set (fst st') = ?R" using sound complete by auto
  moreover have "fillChildren (Suc (length fs)) iv fs root ([], []) =
       Some (fst st', map (\<lambda>i. name (fs ! i)) (filter (fieldCascades iv fs) (fst st')))"
    using run out by (cases st') simp
  ultimately show ?thesis using dist by blast
qed

subsection \<open>Validation started by the cascade\<close>

lemma validateFieldStep_given:
  assumes "\<not> recursive opts"
  shows "validateFieldStep (Some l) opts (npl, es, s) i =
     (if startsValidation npl (fieldEntities s) i
      then (npl,
            es @ [\<lparr>ve_field = i, ve_name = name (fieldEntities s ! i), ve_rootPromise = nextPromise s,
                    ve_value = getValue (store s) (name (fieldEntities s ! i))\<rparr>],
            s\<lparr>fieldEntities := (fieldEntities s)[i := validateRulesStart (nextPromise s) (fieldEntities s ! i)],
              nextPromise := nextPromise s + 1\<rparr>)
      else (npl, es, s))"
  using assms
  by (simp add: validateFieldStep_def pushNamePath_def Let_def containsNamePath_def matchNamePath_def
        list_ex_iff startsValidation_def)

lemma validateLoop_given:
  assumes "\<not> recursive opts"
    and "distinct is"
    and "\<forall>i \<in> set is. i < length (fieldEntities s)"
    and "foldl (validateFieldStep (Some l) opts) (npl, es, s) is = (npl', es', s')"
  shows "map ve_field es' = map ve_field es @ filter (startsValidation npl (fieldEntities s)) is
       \<and> (\<forall>j. j \<notin> set is \<or> \<not> startsValidation npl (fieldEntities s) j \<longrightarrow>
              fieldEntities s' ! j = fieldEntities s ! j)
       \<and> (\<forall>j \<in> set is. startsValidation npl (fieldEntities s) j \<longrightarrow>
              (\<exists>r \<ge> nextPromise s. fieldEntities s' ! j = validateRulesStart r (fieldEntities s ! j)))
       \<and> length (fieldEntities s') = length (fieldEntities s)"
  using assms(2-)
proof (induction "is" arbitrary: es s)
  case Nil
  then show ?case by simp
next
  case (Cons i rest)
  let ?fs = "fieldEntities s"
  show ?case
  proof (cases "startsValidation npl ?fs i")
    case False
    then have step: "validateFieldStep (Some l) opts (npl, es, s) i = (npl, es, s)"
      by (simp add: validateFieldStep_given [OF assms(1)])
    have IH: "map ve_field es' = map ve_field es @ filter (startsValidation npl ?fs) rest
       \<and> (\<forall>j. j \<notin> set rest \<or> \<not> startsValidation npl ?fs j \<longrightarrow> fieldEntities s' ! j = ?fs ! j)
       \<and> (\<forall>j \<in> set rest. startsValidation npl ?fs j \<longrightarrow>
              (\<exists>r \<ge> nextPromise s. fieldEntities s' ! j = validateRulesStart r (?fs ! j)))
       \<and> length (fieldEntities s') = length ?fs"
      using Cons.prems step by (intro Cons.IH) simp_all
    with False show ?thesis by auto
  next
    case True
    let ?s1 = "s\<lparr>fieldEntities := ?fs[i := validateRulesStart (nextPromise s) (?fs ! i)],
                 nextPromise := nextPromise s + 1\<rparr>"
    let ?es1 = "es @ [\<lparr>ve_field = i, ve_name = name (?fs ! i), ve_rootPromise = nextPromise s,
                    ve_value = getValue (store s) (name (?fs ! i))\<rparr>]"
    from True have step: "validateFieldStep (Some l) opts (npl, es, s) i = (npl, ?es1, ?s1)"
      by (simp add: validateFieldStep_given [OF assms(1)])
    have same: "fieldEntities ?s1 ! j = ?fs ! j" if "j \<noteq> i" for j
      using that by simp
    have sel: "startsValidation npl (fieldEntities ?s1) j = startsValidation npl ?fs j" if "j \<noteq> i" for j
      using same [OF that] by (simp add: startsValidation_def)
    have notin: "i \<notin> set rest" using Cons.prems(1) by simp
    have filt: "filter (startsValidation npl (fieldEntities ?s1)) rest = filter (startsValidation npl ?fs) rest"
    proof (rule filter_cong [OF refl])
      fix x assume "x \<in> set rest"
      with notin have "x \<noteq> i" by auto
      then show "startsValidation npl (fieldEntities ?s1) x = startsValidation npl ?fs x"
        by (rule sel)
    qed
    have IH: "map ve_field es' = map ve_field ?es1 @ filter (startsValidation npl (fieldEntities ?s1)) rest
       \<and> (\<forall>j. j \<notin> set rest \<or> \<not> startsValidation npl (fieldEntities ?s1) j \<longrightarrow>
              fieldEntities s' ! j = fieldEntities ?s1 ! j)
       \<and> (\<forall>j \<in> set rest. startsValidation npl (fieldEntities ?s1) j \<longrightarrow>
              (\<exists>r \<ge> nextPromise ?s1. fieldEntities s' ! j = validateRulesStart r (fieldEntities ?s1 ! j)))
       \<and> length (fieldEntities s') = length (fieldEntities ?s1)"
      using Cons.prems step by (intro Cons.IH) simp_all
    have i: "i < length ?fs" using Cons.prems(2) by simp
    have a: "map ve_field es' = map ve_field es @ filter (startsValidation npl ?fs) (i # rest)"
      using IH True filt by simp
    have b: "fieldEntities s' ! j = ?fs ! j"
      if "j \<notin> set (i # rest) \<or> \<not> startsValidation npl ?fs j" for j
    proof -
      from that True have ji: "j \<noteq> i" by auto
      with that have "j \<notin> set rest \<or> \<not> startsValidation npl (fieldEntities ?s1) j"
        using sel [OF ji] by auto
      with IH have "fieldEntities s' ! j = fieldEntities ?s1 ! j" by blast
      with same [OF ji] show ?thesis by simp
    qed
    have c: "\<exists>r \<ge> nextPromise s. fieldEntities s' ! j = validateRulesStart r (?fs ! j)"
      if "j \<in> set (i # rest)" "startsValidation npl ?fs j" for j
    proof (cases "j = i")
      case True
      with notin IH have "fieldEntities s' ! i = fieldEntities ?s1 ! i" by blast
      with i True show ?thesis by auto
    next
      case False
      with that have "j \<in> set rest" "startsValidation npl (fieldEntities ?s1) j"
        using sel [OF False] by auto
      with IH obtain r where "r \<ge> nextPromise ?s1"
        "fieldEntities s' ! j = validateRulesStart r (fieldEntities ?s1 ! j)" by blast
      with same [OF False] show ?thesis by (intro exI [of _ r]) simp
    qed
    from a b c IH show ?thesis by simp
  qed
qed

lemma validateFields_given:
  assumes "\<not> recursive opts"
  shows "map ve_field (promiseList (snd (validateFields (Some l) opts s))) =
           filter (startsValidation (map getNamePath l) (fieldEntities s)) (pureEntities s)"
    and "\<forall>j. j \<notin> set (pureEntities s) \<or> \<not> startsValidation (map getNamePath l) (fieldEntities s) j \<longrightarrow>
           fieldEntities (fst (validateFields (Some l) opts s)) ! j = fieldEntities s ! j"
    and "\<forall>j \<in> set (pureEntities s). startsValidation (map getNamePath l) (fieldEntities s) j \<longrightarrow>
           (\<exists>r \<ge> nextPromise s.
              fieldEntities (fst (validateFields (Some l) opts s)) ! j =
                validateRulesStart r (fieldEntities s ! j))"
proof -
  obtain n e s1 where loop:
    "foldl (validateFieldStep (Some l) opts) (map getNamePath l, [], s) (pureEntities s) = (n, e, s1)"
    by (cases "foldl (validateFieldStep (Some l) opts) (map getNamePath l, [], s) (pureEntities s)") auto
  have res: "fieldEntities (fst (validateFields (Some l) opts s)) = fieldEntities s1"
    "promiseList (snd (validateFields (Some l) opts s)) = e"
    using loop by (simp_all add: validateFields_def)
  from validateLoop_given [OF assms pureEntities_distinct pureEntities_bound loop]
  show "map ve_field (promiseList (snd (validateFields (Some l) opts s))) =
           filter (startsValidation (map getNamePath l) (fieldEntities s)) (pureEntities s)"
    and "\<forall>j. j \<notin> set (pureEntities s) \<or> \<not> startsValidation (map getNamePath l) (fieldEntities s) j \<longrightarrow>
           fieldEntities (fst (validateFields (Some l) opts s)) ! j = fieldEntities s ! j"
    and "\<forall>j \<in> set (pureEntities s). startsValidation (map getNamePath l) (fieldEntities s) j \<longrightarrow>
           (\<exists>r \<ge> nextPromise s.
              fieldEntities (fst (validateFields (Some l) opts s)) ! j =
                validateRulesStart r (fieldEntities s ! j))"
    unfolding res by simp_all
qed

lemma onStoreChange_dependencies_promise:
  "validatePromise (onStoreChange fresh prev npl (DependenciesUpdate rel) st f) = validatePromise f"
  by (simp add: onStoreChange_def Let_def isExternalValueUpdate_def)

lemma notifyObservers_dependencies_promise:
  "j < length (fieldEntities s) \<Longrightarrow>
   validatePromise (fieldEntities (notifyObservers prev npl (DependenciesUpdate rel) s) ! j) =
     validatePromise (fieldEntities s ! j)"
  by (simp add: notifyObservers_def onStoreChange_dependencies_promise emit_def)

lemma map_getNamePath_Path [simp]:
  "map getNamePath (map Path cs) = cs" "map (getNamePath \<circ> Path) cs = cs"
  by (induction cs) simp_all

lemma cascade_returned:
  "getDependencyChildrenFields s root = Some cs \<Longrightarrow> snd (triggerDependenciesUpdate prev root s) = cs"
  by (simp add: triggerDependenciesUpdate_def Let_def)

lemma cascade_validation:
  assumes cs: "getDependencyChildrenFields s root = Some cs"
    and j: "j < length (fieldEntities s)"
  shows "name (fieldEntities s ! j) \<noteq> [] \<and> rules (fieldEntities s ! j) \<noteq> [] \<and>
         name (fieldEntities s ! j) \<in> set cs \<Longrightarrow>
         \<exists>r \<ge> nextPromise s.
           validatePromise (fieldEntities (fst (triggerDependenciesUpdate prev root s)) ! j) = Some r"
    and "\<not> (name (fieldEntities s ! j) \<noteq> [] \<and> rules (fieldEntities s ! j) \<noteq> [] \<and>
            name (fieldEntities s ! j) \<in> set cs) \<Longrightarrow>
         validatePromise (fieldEntities (fst (triggerDependenciesUpdate prev root s)) ! j) =
           validatePromise (fieldEntities s ! j)"
proof -
  let ?s1 = "if cs \<noteq> [] then fst (validateFields (Some (map Path cs)) noOptions s) else s"
  have td: "fst (triggerDependenciesUpdate prev root s) =
        notifyObservers prev (Some cs) (DependenciesUpdate (root # cs)) ?s1"
    using cs by (simp add: triggerDependenciesUpdate_def Let_def)
  have len: "length (fieldEntities ?s1) = length (fieldEntities s)"
    using validateFields_result(9) [of "Some (map Path cs)" noOptions s
        "fst (validateFields (Some (map Path cs)) noOptions s)"
        "snd (validateFields (Some (map Path cs)) noOptions s)"]
    by simp
  have vp: "validatePromise (fieldEntities (fst (triggerDependenciesUpdate prev root s)) ! j) =
        validatePromise (fieldEntities ?s1 ! j)"
    unfolding td using j len by (intro notifyObservers_dependencies_promise) simp
  have nr: "\<not> recursive noOptions" by (simp add: noOptions_def)
  have pure: "j \<in> set (pureEntities s) \<longleftrightarrow> name (fieldEntities s ! j) \<noteq> []"
    using j by (simp add: pureEntities_def)
  {
    assume sel: "name (fieldEntities s ! j) \<noteq> [] \<and> rules (fieldEntities s ! j) \<noteq> [] \<and>
         name (fieldEntities s ! j) \<in> set cs"
    then have ne: "cs \<noteq> []" by auto
    from sel pure have "j \<in> set (pureEntities s)" "startsValidation cs (fieldEntities s) j"
      by (simp_all add: startsValidation_def)
    with validateFields_given(3) [OF nr, of s "map Path cs"]
    obtain r where "r \<ge> nextPromise s"
      "fieldEntities (fst (validateFields (Some (map Path cs)) noOptions s)) ! j =
         validateRulesStart r (fieldEntities s ! j)"
      by auto
    with ne show "\<exists>r \<ge> nextPromise s.
           validatePromise (fieldEntities (fst (triggerDependenciesUpdate prev root s)) ! j) = Some r"
      unfolding vp by (intro exI [of _ r]) simp
  }
  {
    assume nsel: "\<not> (name (fieldEntities s ! j) \<noteq> [] \<and> rules (fieldEntities s ! j) \<noteq> [] \<and>
            name (fieldEntities s ! j) \<in> set cs)"
    with pure have "j \<notin> set (pureEntities s) \<or> \<not> startsValidation cs (fieldEntities s) j"
      by (auto simp: startsValidation_def)
    with validateFields_given(2) [OF nr, of s "map Path cs"]
    have "fieldEntities (fst (validateFields (Some (map Path cs)) noOptions s)) ! j = fieldEntities s ! j"
      by simp
    then show "validatePromise (fieldEntities (fst (triggerDependenciesUpdate prev root s)) ! j) =
           validatePromise (fieldEntities s ! j)"
      unfolding vp by simp
  }
qed

lemma updateValue_fields:
  "fieldEntities (updateValue nm v s) =
     fieldEntities (fst (triggerDependenciesUpdate (store s) (getNamePath nm)
       (notifyWatch [getNamePath nm]
          (notifyObservers (store s) (Some [getNamePath nm]) (ValueUpdate Internal)
             (updateStore (setValue (generation s) (store s) (getNamePath nm) v) s)))))"
  by (simp add: updateValue_def Let_def case_prod_beta triggerOnFieldsChange_def)

text \<open>
  C4, as the code has it. \<open>getDependencyChildrenFields\<close> always returns. It visits
  exactly the registered fields that declare the changed path, or the path of a visited
  field that is cascaded into, among their dependencies, each once; it returns the paths of
  the visited fields that are cascaded into, and recurses into those only. A field is
  cascaded into when \<open>isFieldDirty\<close> holds (the \<open>dirty\<close> flag, or an \<open>initialValue\<close> of
  the field, or an initial value of the form at its path) and its path is not empty.
  \<open>triggerDependenciesUpdate\<close> gives the returned paths to \<open>validateFields\<close>, which
  validates by path: a new validation is started for every registered field with a path and
  with rules whose path is among the returned ones, and the validation state of every other
  field is left as it is.
\<close>

theorem dependency_cascade_collects:
  "\<exists>children. distinct children
     \<and> set children = cascadeFields (initialValues s) (fieldEntities s) root
     \<and> (let childrenFields =
               map (\<lambda>i. name (fieldEntities s ! i))
                 (filter (\<lambda>i. isFieldDirty (initialValues s) (fieldEntities s ! i) \<and>
                              name (fieldEntities s ! i) \<noteq> []) children)
         in getDependencyChildrenFields s root = Some childrenFields
          \<and> snd (triggerDependenciesUpdate prev root s) = childrenFields
          \<and> (\<forall>j < length (fieldEntities s).
                if name (fieldEntities s ! j) \<noteq> [] \<and> rules (fieldEntities s ! j) \<noteq> [] \<and>
                   name (fieldEntities s ! j) \<in> set childrenFields
                then \<exists>r \<ge> nextPromise s.
                       validatePromise (fieldEntities (fst (triggerDependenciesUpdate prev root s)) ! j) =
                         Some r
                else validatePromise (fieldEntities (fst (triggerDependenciesUpdate prev root s)) ! j) =
                       validatePromise (fieldEntities s ! j)))"
proof -
  from cascade_run [of "initialValues s" "fieldEntities s" root]
  obtain children where c: "distinct children"
    "set children = cascadeFields (initialValues s) (fieldEntities s) root"
    "fillChildren (Suc (length (fieldEntities s))) (initialValues s) (fieldEntities s) root ([], []) =
       Some (children, map (\<lambda>i. name (fieldEntities s ! i))
                         (filter (fieldCascades (initialValues s) (fieldEntities s)) children))"
    by blast
  let ?cs = "map (\<lambda>i. name (fieldEntities s ! i))
               (filter (\<lambda>i. isFieldDirty (initialValues s) (fieldEntities s ! i) \<and>
                            name (fieldEntities s ! i) \<noteq> []) children)"
  have "fieldCascades (initialValues s) (fieldEntities s) =
        (\<lambda>i. isFieldDirty (initialValues s) (fieldEntities s ! i) \<and> name (fieldEntities s ! i) \<noteq> [])"
    by (simp add: fieldCascades_def fun_eq_iff)
  with c(3) have cs: "getDependencyChildrenFields s root = Some ?cs"
    by (simp add: getDependencyChildrenFields_def)
  have "\<forall>j < length (fieldEntities s).
          if name (fieldEntities s ! j) \<noteq> [] \<and> rules (fieldEntities s ! j) \<noteq> [] \<and>
             name (fieldEntities s ! j) \<in> set ?cs
          then \<exists>r \<ge> nextPromise s.
                 validatePromise (fieldEntities (fst (triggerDependenciesUpdate prev root s)) ! j) = Some r
          else validatePromise (fieldEntities (fst (triggerDependenciesUpdate prev root s)) ! j) =
                 validatePromise (fieldEntities s ! j)"
    using cascade_validation [OF cs, of _ prev] by presburger
  with c(1,2) cs cascade_returned [OF cs, of prev] show ?thesis
    unfolding Let_def by (intro exI [of _ children]) blast
qed

lemmas cascade_example_defs =
  dependentForm_def chainForm_def sharedPathForm_def exampleForm_def exampleField_def
  getDependencyChildrenFields_def dependencies2fields_def isFieldDirty_def emptyObject_def
  objectWith_def

theorem dependency_cascade_collects_witness:
  "getDependencyChildrenFields chainForm [Name ''a''] = Some [[Name ''b'']]
   \<and> snd (triggerDependenciesUpdate (store chainForm) [Name ''a''] chainForm) = [[Name ''b'']]
   \<and> validatePromise
        (fieldEntities (fst (triggerDependenciesUpdate (store chainForm) [Name ''a''] chainForm)) ! 1) = None"
proof -
  have cs: "getDependencyChildrenFields chainForm [Name ''a''] = Some [[Name ''b'']]"
    by (simp add: cascade_example_defs)
  have f: "length (fieldEntities chainForm) = 4" "rules (fieldEntities chainForm ! 1) = []"
    "validatePromise (fieldEntities chainForm ! 1) = None"
    by (simp_all add: cascade_example_defs)
  from dependency_cascade_collects [of chainForm "[Name ''a'']" "store chainForm"] cs f
  show ?thesis by (auto simp: Let_def)
qed

lemmas cascade_run_defs =
  cascade_example_defs notifyObservers_def notifyWatch_def updateStore_def emit_def
  onStoreChange_def Let_def isExternalValueUpdate_def reRender_def shouldUpdateTrue_def
  shouldUpdateSet_def requireUpdate_def containsNamePath_def matchNamePath_def setValue_def

text \<open>
  C4 as stated fails. A field that was never touched or validated, but declares an initial
  value, is collected by the cascade and revalidated when the path it depends on changes.
  And a field that is not dirty and depends on nothing is revalidated too when it shares its
  path with a collected field: the validation goes by path.
\<close>

theorem untouched_field_with_initial_value_cascades:
  "touched (fieldEntities dependentForm ! 1) = False
   \<and> dirty (fieldEntities dependentForm ! 1) = False
   \<and> validatePromise (fieldEntities dependentForm ! 1) = None
   \<and> getDependencyChildrenFields dependentForm [Name ''a''] = Some [[Name ''b'']]
   \<and> isFieldValidating (fieldEntities (updateValue (Scalar (Name ''a'')) (Atom 7) dependentForm) ! 1)
   \<and> isFieldDirty (initialValues sharedPathForm) (fieldEntities sharedPathForm ! 2) = False
   \<and> dependencies (fieldEntities sharedPathForm ! 2) = []
   \<and> getDependencyChildrenFields sharedPathForm [Name ''a''] = Some [[Name ''b'']]
   \<and> isFieldValidating (fieldEntities (updateValue (Scalar (Name ''a'')) (Atom 7) sharedPathForm) ! 2)"
proof -
  let ?d3 = "notifyWatch [[Name ''a'']]
          (notifyObservers (store dependentForm) (Some [[Name ''a'']]) (ValueUpdate Internal)
             (updateStore (setValue (generation dependentForm) (store dependentForm) [Name ''a''] (Atom 7))
                dependentForm))"
  let ?s3 = "notifyWatch [[Name ''a'']]
          (notifyObservers (store sharedPathForm) (Some [[Name ''a'']]) (ValueUpdate Internal)
             (updateStore (setValue (generation sharedPathForm) (store sharedPathForm) [Name ''a''] (Atom 7))
                sharedPathForm))"
  have d: "getDependencyChildrenFields ?d3 [Name ''a''] = Some [[Name ''b'']]"
    "1 < length (fieldEntities ?d3)"
    "name (fieldEntities ?d3 ! 1) \<noteq> [] \<and> rules (fieldEntities ?d3 ! 1) \<noteq> [] \<and>
     name (fieldEntities ?d3 ! 1) \<in> set [[Name ''b'']]"
    by (simp_all add: cascade_run_defs passRule_def)
  have s: "getDependencyChildrenFields ?s3 [Name ''a''] = Some [[Name ''b'']]"
    "2 < length (fieldEntities ?s3)"
    "name (fieldEntities ?s3 ! 2) \<noteq> [] \<and> rules (fieldEntities ?s3 ! 2) \<noteq> [] \<and>
     name (fieldEntities ?s3 ! 2) \<in> set [[Name ''b'']]"
    by (simp_all add: cascade_run_defs passRule_def)
  have "isFieldValidating (fieldEntities (updateValue (Scalar (Name ''a'')) (Atom 7) dependentForm) ! 1)"
    using cascade_validation(1) [OF d(1) d(2) d(3), of "store dependentForm"]
    by (auto simp add: updateValue_fields isFieldValidating_def)
  moreover
  have "isFieldValidating (fieldEntities (updateValue (Scalar (Name ''a'')) (Atom 7) sharedPathForm) ! 2)"
    using cascade_validation(1) [OF s(1) s(2) s(3), of "store sharedPathForm"]
    by (auto simp add: updateValue_fields isFieldValidating_def)
  moreover
  have "touched (fieldEntities dependentForm ! 1) = False
   \<and> dirty (fieldEntities dependentForm ! 1) = False
   \<and> validatePromise (fieldEntities dependentForm ! 1) = None
   \<and> getDependencyChildrenFields dependentForm [Name ''a''] = Some [[Name ''b'']]
   \<and> isFieldDirty (initialValues sharedPathForm) (fieldEntities sharedPathForm ! 2) = False
   \<and> dependencies (fieldEntities sharedPathForm ! 2) = []
   \<and> getDependencyChildrenFields sharedPathForm [Name ''a''] = Some [[Name ''b'']]"
    by (simp add: cascade_example_defs)
  ultimately show ?thesis by simp
qed

subsection \<open>Notifications\<close>

lemma notifyObservers_trace:
  "trace (notifyObservers prev npl info s) =
     trace s @ (if subscribable s
                then map (\<lambda>i. StoreChange i npl info) [0..<length (fieldEntities s)]
                else [ForceRootUpdate])"
  by (simp add: notifyObservers_def)

lemma getFieldsValue_emit [simp]: "getFieldsValue (emit es s) nl = getFieldsValue s nl"
  by (simp add: getFieldsValue_def pureEntities_def split: option.splits)

lemma notifyWatch_trace:
  "trace (notifyWatch ps s) =
     trace s @ map (\<lambda>callback. WatchCallback callback (getFieldsValue s None) ps) (watchList s)"
  by (simp add: notifyWatch_def)

lemma getFieldsValue_notifyWatch [simp]:
  "getFieldsValue (notifyWatch ps s) nl = getFieldsValue s nl"
  by (simp add: notifyWatch_def)

lemma notifyObservers_fields:
  "fieldEntities (notifyObservers prev npl info s) =
     (if subscribable s
      then map (\<lambda>(f, i). onStoreChange (nextPromise s + i) prev npl info (store s) f)
             (zip (fieldEntities s) [0..<length (fieldEntities s)])
      else fieldEntities s)"
  by (simp add: notifyObservers_def)

lemma validateFields_store [simp]: "store (fst (validateFields nl opts s)) = store s"
  using validateFields_result(1) [of nl opts s "fst (validateFields nl opts s)" "snd (validateFields nl opts s)"]
  by simp

lemma triggerDependenciesUpdate_store [simp]:
  "store (fst (triggerDependenciesUpdate prev p s)) = store s"
  by (simp add: triggerDependenciesUpdate_def Let_def)

lemma validateFields_frame:
  "trace (fst (validateFields nl opts s)) = trace s"
  "subscribable (fst (validateFields nl opts s)) = subscribable s"
  "watchList (fst (validateFields nl opts s)) = watchList s"
  "onValuesChange (fst (validateFields nl opts s)) = onValuesChange s"
  "onFieldsChange (fst (validateFields nl opts s)) = onFieldsChange s"
  "generation (fst (validateFields nl opts s)) = generation s"
  "length (fieldEntities (fst (validateFields nl opts s))) = length (fieldEntities s)"
  using validateFields_result [of nl opts s "fst (validateFields nl opts s)" "snd (validateFields nl opts s)"]
  by simp_all

lemma triggerDependenciesUpdate_trace:
  "trace (fst (triggerDependenciesUpdate prev p s)) =
     trace s @ (if subscribable s
                then map (\<lambda>i. StoreChange i (Some (snd (triggerDependenciesUpdate prev p s)))
                                (DependenciesUpdate (p # snd (triggerDependenciesUpdate prev p s))))
                       [0..<length (fieldEntities s)]
                else [ForceRootUpdate])"
  by (simp add: triggerDependenciesUpdate_def Let_def notifyObservers_trace validateFields_frame)

lemma triggerDependenciesUpdate_frame:
  "onValuesChange (fst (triggerDependenciesUpdate prev p s)) = onValuesChange s"
  "onFieldsChange (fst (triggerDependenciesUpdate prev p s)) = onFieldsChange s"
  "generation (fst (triggerDependenciesUpdate prev p s)) = generation s"
  by (simp_all add: triggerDependenciesUpdate_def Let_def validateFields_frame)

lemma triggerOnFieldsChange_trace_None:
  "trace (triggerOnFieldsChange npl None s) =
     trace s @ (if onFieldsChange s
                then [OnFieldsChange
                        (filter (\<lambda>fd. containsNamePath npl (getNamePath (fd_name fd))) (getFields s))
                        (getFields s)]
                else [])"
  by (simp add: triggerOnFieldsChange_def Let_def)

lemma updateValue_trace:
  "\<exists>childrenFields values allValues changedFields allFields.
     trace (updateValue nm v s) =
       trace s
       @ (if subscribable s
          then map (\<lambda>i. StoreChange i (Some [getNamePath nm]) (ValueUpdate Internal))
                 [0..<length (fieldEntities s)]
          else [ForceRootUpdate])
       @ map (\<lambda>callback. WatchCallback callback values [getNamePath nm]) (watchList s)
       @ (if subscribable s
          then map (\<lambda>i. StoreChange i (Some childrenFields)
                          (DependenciesUpdate (getNamePath nm # childrenFields)))
                 [0..<length (fieldEntities s)]
          else [ForceRootUpdate])
       @ (if onValuesChange s
          then [OnValuesChange (cloneByNamePathList (Suc (generation s)) (setValue (generation s) (store s) (getNamePath nm) v) [getNamePath nm])
                  allValues]
          else [])
       @ (if onFieldsChange s then [OnFieldsChange changedFields allFields] else [])"
proof -
  let ?p = "getNamePath nm"
  let ?s1 = "updateStore (setValue (generation s) (store s) ?p v) s"
  let ?s2 = "notifyObservers (store s) (Some [?p]) (ValueUpdate Internal) ?s1"
  let ?s3 = "notifyWatch [?p] ?s2"
  let ?td = "triggerDependenciesUpdate (store s) ?p ?s3"
  let ?s4 = "fst ?td"
  let ?cs = "snd ?td"
  let ?s5 = "if onValuesChange ?s4
             then emit [OnValuesChange (cloneByNamePathList (generation ?s4) (store ?s4) [?p]) (getFieldsValue ?s4 None)] ?s4
             else ?s4"
  have upd: "updateValue nm v s = triggerOnFieldsChange (?p # ?cs) None ?s5"
    by (simp add: updateValue_def Let_def case_prod_beta)
  have t3: "trace ?s3 = trace s
       @ (if subscribable s
          then map (\<lambda>i. StoreChange i (Some [?p]) (ValueUpdate Internal)) [0..<length (fieldEntities s)]
          else [ForceRootUpdate])
       @ map (\<lambda>callback. WatchCallback callback (getFieldsValue ?s2 None) [?p]) (watchList s)"
    by (simp add: notifyWatch_trace notifyObservers_trace)
  have t4: "trace ?s4 = trace ?s3
       @ (if subscribable s
          then map (\<lambda>i. StoreChange i (Some ?cs) (DependenciesUpdate (?p # ?cs)))
                 [0..<length (fieldEntities s)]
          else [ForceRootUpdate])"
    by (simp add: triggerDependenciesUpdate_trace)
  have t5: "trace ?s5 = trace ?s4
       @ (if onValuesChange s
          then [OnValuesChange (cloneByNamePathList (Suc (generation s)) (setValue (generation s) (store s) ?p v) [?p]) (getFieldsValue ?s4 None)]
          else [])"
    by (simp add: triggerDependenciesUpdate_frame)
  have on5: "onFieldsChange ?s5 = onFieldsChange s"
    by (simp add: triggerDependenciesUpdate_frame)
  have "trace (updateValue nm v s) = trace ?s5
       @ (if onFieldsChange s
          then [OnFieldsChange
                  (filter (\<lambda>fd. containsNamePath (?p # ?cs) (getNamePath (fd_name fd))) (getFields ?s5))
                  (getFields ?s5)]
          else [])"
    unfolding upd triggerOnFieldsChange_trace_None on5 ..
  then show ?thesis
    unfolding t5 t4 t3 by (intro exI) (simp only: append_assoc)
qed

text \<open>
  C9. \<open>setFieldValue(name, value)\<close> writes the value at the path, notifies the registered
  fields once with \<open>setField\<close> (the root is updated instead when the store is not
  subscribable) and the watchers once with that path, and does nothing else: no
  \<open>valueUpdate\<close> or \<open>dependenciesUpdate\<close> notification, no validation, no
  \<open>onValuesChange\<close> and no \<open>onFieldsChange\<close>. \<open>updateValue\<close> on the same path, in
  contrast, notifies with \<open>valueUpdate\<close>, runs the dependency cascade and calls both
  callbacks if they are set.
\<close>

theorem setFieldValue_effects:
  "store (setFieldValue nm v s) = setValue (generation s) (store s) (getNamePath nm) v
   \<and> trace (setFieldValue nm v s) =
       trace s
       @ (if subscribable s
          then map (\<lambda>i. StoreChange i (Some [getNamePath nm])
                          (SetField \<lparr>fd_name = nm, fd_value = Some v, fd_touched = None,
                                     fd_validating = None, fd_errors = None, fd_warnings = None,
                                     originRCField = False\<rparr>))
                 [0..<length (fieldEntities s)]
          else [ForceRootUpdate])
       @ map (\<lambda>callback. WatchCallback callback (getFieldsValue (setFieldValue nm v s) None)
                            [getNamePath nm])
           (watchList s)
   \<and> lastValidatePromise (setFieldValue nm v s) = lastValidatePromise s
   \<and> length (fieldEntities (setFieldValue nm v s)) = length (fieldEntities s)
   \<and> (\<exists>childrenFields values allValues changedFields allFields.
         trace (updateValue nm v s) =
           trace s
           @ (if subscribable s
              then map (\<lambda>i. StoreChange i (Some [getNamePath nm]) (ValueUpdate Internal))
                     [0..<length (fieldEntities s)]
              else [ForceRootUpdate])
           @ map (\<lambda>callback. WatchCallback callback values [getNamePath nm]) (watchList s)
           @ (if subscribable s
              then map (\<lambda>i. StoreChange i (Some childrenFields)
                              (DependenciesUpdate (getNamePath nm # childrenFields)))
                     [0..<length (fieldEntities s)]
              else [ForceRootUpdate])
           @ (if onValuesChange s
              then [OnValuesChange
                      (cloneByNamePathList (Suc (generation s)) (setValue (generation s) (store s) (getNamePath nm) v) [getNamePath nm])
                      allValues]
              else [])
           @ (if onFieldsChange s then [OnFieldsChange changedFields allFields] else []))"
proof -
  have "store (setFieldValue nm v s) = setValue (generation s) (store s) (getNamePath nm) v"
    by (simp add: setFieldValue_def setFields_def setField_def Let_def)
  moreover have "trace (setFieldValue nm v s) =
       trace s
       @ (if subscribable s
          then map (\<lambda>i. StoreChange i (Some [getNamePath nm])
                          (SetField \<lparr>fd_name = nm, fd_value = Some v, fd_touched = None,
                                     fd_validating = None, fd_errors = None, fd_warnings = None,
                                     originRCField = False\<rparr>))
                 [0..<length (fieldEntities s)]
          else [ForceRootUpdate])
       @ map (\<lambda>callback. WatchCallback callback (getFieldsValue (setFieldValue nm v s) None)
                            [getNamePath nm])
           (watchList s)"
    by (simp add: setFieldValue_def setFields_def setField_def Let_def notifyObservers_trace
          notifyWatch_trace)
  moreover have "lastValidatePromise (setFieldValue nm v s) = lastValidatePromise s"
    and "length (fieldEntities (setFieldValue nm v s)) = length (fieldEntities s)"
    by (simp_all add: setFieldValue_def setFields_def setField_def Let_def)
  ultimately show ?thesis
    using updateValue_trace [of nm v s] by blast
qed

subsection \<open>Reset and unregistration\<close>

lemma getValue_installAt: "getValue (installAt newRef pre s p v) p = v"
  by (induction p arbitrary: s pre) simp_all

lemma getValue_setValue: "getValue (setValue g s p v) p = v"
  by (simp add: setValue_def getValue_installAt)

lemma cloneDeep_Undefined [simp]: "(cloneDeep v newRef pre = Undefined) = (v = Undefined)"
  by (cases v) simp_all

lemma getInitialValue_Undefined:
  "(getInitialValue s p = Undefined) = (getValue (initialValues s) p = Undefined)"
  by (simp add: getInitialValue_def Let_def)

lemma pureEntities_cong:
  "fieldEntities s' = fieldEntities s \<Longrightarrow> pureEntities s' = pureEntities s"
  by (simp add: pureEntities_def)

lemma initialValueRecords_cong:
  "fieldEntities s' = fieldEntities s \<Longrightarrow> initialValueRecords s' p = initialValueRecords s p"
  by (simp add: initialValueRecords_def pureEntities_def)

lemma resetWithField_frame [simp]:
  "fieldEntities (resetWithField sk s i) = fieldEntities s"
  "initialValues (resetWithField sk s i) = initialValues s"
  by (simp_all add: resetWithField_def Let_def split: list.splits)

lemma foldl_resetWithField_frame [simp]:
  "fieldEntities (foldl (resetWithField sk) s is) = fieldEntities s"
  "initialValues (foldl (resetWithField sk) s is) = initialValues s"
  by (induction "is" arbitrary: s) simp_all

lemma initialValueRecords_member:
  "r \<in> set (initialValueRecords s p) \<Longrightarrow>
   initialValue (fieldEntities s ! r) \<noteq> Undefined \<and> name (fieldEntities s ! r) = p"
  by (auto simp: initialValueRecords_def)

lemma resetWithField_undeclared:
  "initialValue (fieldEntities s ! i) = Undefined \<Longrightarrow> resetWithField sk s i = s"
  by (simp add: resetWithField_def)

lemma resetWithField_form_wins:
  "initialValue (fieldEntities s ! i) \<noteq> Undefined \<Longrightarrow>
   getInitialValue s (name (fieldEntities s ! i)) \<noteq> Undefined \<Longrightarrow>
   store (resetWithField sk s i) = store s \<and> generation (resetWithField sk s i) = generation s"
  by (simp add: resetWithField_def)

lemma resetWithField_records:
  "initialValue (fieldEntities s ! i) \<noteq> Undefined \<Longrightarrow>
   getInitialValue s (name (fieldEntities s ! i)) = Undefined \<Longrightarrow>
   (store (resetWithField False s i), generation (resetWithField False s i)) =
     (case initialValueRecords s (name (fieldEntities s ! i)) of
        [] \<Rightarrow> (store s, generation s)
      | r # rest \<Rightarrow>
          if rest \<noteq> [] then (store s, generation s)
          else (setValue (generation s) (store s) (name (fieldEntities s ! i))
                  (initialValue (fieldEntities s ! r)),
                Suc (generation s)))"
  by (simp add: resetWithField_def split: list.splits)

lemma resetWithField_store:
  assumes "i \<in> set (pureEntities s)"
  shows "(store (resetWithField False s i), generation (resetWithField False s i)) =
     (if fieldInitialValueApplies s i
      then (setValue (generation s) (store s) (name (fieldEntities s ! i))
              (initialValue (fieldEntities s ! i)),
            Suc (generation s))
      else (store s, generation s))"
proof (cases "initialValue (fieldEntities s ! i) = Undefined")
  case True
  then show ?thesis by (simp add: resetWithField_undeclared fieldInitialValueApplies_def)
next
  case declared: False
  show ?thesis
  proof (cases "getInitialValue s (name (fieldEntities s ! i)) = Undefined")
    case False
    with declared show ?thesis by (simp add: resetWithField_form_wins fieldInitialValueApplies_def)
  next
    case True
    let ?p = "name (fieldEntities s ! i)"
    from assms declared have mem: "i \<in> set (initialValueRecords s ?p)"
      by (simp add: initialValueRecords_def)
    show ?thesis
    proof (cases "initialValueRecords s ?p")
      case Nil
      with mem show ?thesis by simp
    next
      case (Cons r rest)
      show ?thesis
      proof (cases rest)
        case Nil
        with Cons mem have "r = i" by simp
        with Cons Nil declared True show ?thesis
          using resetWithField_records [OF declared True]
          by (simp add: fieldInitialValueApplies_def)
      next
        case (Cons r2 rest2)
        with \<open>initialValueRecords s ?p = r # rest\<close> declared True show ?thesis
          using resetWithField_records [OF declared True]
          by (simp add: fieldInitialValueApplies_def)
      qed
    qed
  qed
qed

lemma fieldInitialValueApplies_cong:
  "fieldEntities s' = fieldEntities s \<Longrightarrow> initialValues s' = initialValues s \<Longrightarrow>
   fieldInitialValueApplies s' i = fieldInitialValueApplies s i"
  by (simp add: fieldInitialValueApplies_def initialValueRecords_def pureEntities_def
        getInitialValue_Undefined)

lemma foldl_resetWithField_store:
  assumes "set is \<subseteq> set (pureEntities s0)"
    and "fieldEntities s = fieldEntities s0" "initialValues s = initialValues s0"
  shows "(store (foldl (resetWithField False) s is), generation (foldl (resetWithField False) s is)) =
     foldl (\<lambda>(st, g) i. if fieldInitialValueApplies s0 i
                    then (setValue g st (name (fieldEntities s0 ! i)) (initialValue (fieldEntities s0 ! i)),
                          Suc g)
                    else (st, g)) (store s, generation s) is"
  using assms
proof (induction "is" arbitrary: s)
  case Nil
  show ?case by simp
next
  case (Cons i rest)
  let ?step = "\<lambda>(st, g) i. if fieldInitialValueApplies s0 i
                    then (setValue g st (name (fieldEntities s0 ! i)) (initialValue (fieldEntities s0 ! i)),
                          Suc g)
                    else (st, g)"
  from Cons.prems have i: "i \<in> set (pureEntities s)"
    using pureEntities_cong [of s s0] by simp
  have step: "(store (resetWithField False s i), generation (resetWithField False s i)) =
     ?step (store s, generation s) i"
    using resetWithField_store [OF i] Cons.prems(2,3) fieldInitialValueApplies_cong [of s s0 i] by simp
  have "(store (foldl (resetWithField False) (resetWithField False s i) rest),
         generation (foldl (resetWithField False) (resetWithField False s i) rest)) =
     foldl ?step (store (resetWithField False s i), generation (resetWithField False s i)) rest"
    using Cons.prems by (intro Cons.IH) simp_all
  then show ?case by (simp only: foldl_Cons step)
qed

lemma updateStore_derived [simp]:
  "pureEntities (updateStore v s) = pureEntities s"
  "initialValueRecords (updateStore v s) p = initialValueRecords s p"
  "fieldInitialValueApplies (updateStore v s) i = fieldInitialValueApplies s i"
  "pureEntities (s\<lparr>store := v\<rparr>) = pureEntities s"
  "fieldInitialValueApplies (s\<lparr>store := v\<rparr>) i = fieldInitialValueApplies s i"
  by (simp_all add: pureEntities_def initialValueRecords_def getInitialValue_Undefined
        fieldInitialValueApplies_def)

lemma foldl_if_none:
  "(\<forall>i \<in> set is. \<not> P i) \<Longrightarrow>
   foldl (\<lambda>(st, g) i. if P i then h st g i else (st, g)) acc is = acc"
  by (induction "is" arbitrary: acc) (simp_all add: case_prod_beta)

lemma initialValueRecords_pure: "set (initialValueRecords s p) \<subseteq> set (pureEntities s)"
  by (auto simp: initialValueRecords_def)

lemma reset_single_path:
  "getFieldValue (resetFields (Some [nm]) s) (getNamePath nm) =
    (if getInitialValue s (getNamePath nm) \<noteq> Undefined then getInitialValue s (getNamePath nm)
     else case initialValueRecords s (getNamePath nm) of
            [r] \<Rightarrow> initialValue (fieldEntities s ! r)
          | _ \<Rightarrow> Undefined)"
proof -
  let ?p = "getNamePath nm"
  let ?s1 = "updateStore (setValue (generation s) (store s) ?p (getInitialValue s ?p)) s"
  let ?recs = "initialValueRecords s ?p"
  let ?step = "\<lambda>(st, g) i. if fieldInitialValueApplies ?s1 i
                    then (setValue g st (name (fieldEntities ?s1 ! i)) (initialValue (fieldEntities ?s1 ! i)),
                          Suc g)
                    else (st, g)"
  have recs1: "initialValueRecords ?s1 ?p = ?recs"
    by simp
  have sub: "set ?recs \<subseteq> set (pureEntities ?s1)"
    using initialValueRecords_pure [of ?s1 ?p] recs1 by simp
  have "store (resetFields (Some [nm]) s) = store (foldl (resetWithField False) ?s1 ?recs)"
    by (simp add: resetFields_def resetWithFieldInitialValue_def recs1 Let_def)
  also have "\<dots> = fst (foldl ?step (store ?s1, generation ?s1) ?recs)"
    using foldl_resetWithField_store [OF sub refl refl] by (metis fst_conv)
  finally have st: "store (resetFields (Some [nm]) s) = fst (foldl ?step (store ?s1, generation ?s1) ?recs)" .
  have el: "\<And>i. i \<in> set ?recs \<Longrightarrow>
      fieldInitialValueApplies ?s1 i = (getInitialValue s ?p = Undefined \<and> length ?recs = 1)"
    using initialValueRecords_member [of _ s ?p]
    by (auto simp: fieldInitialValueApplies_def getInitialValue_Undefined)
  have nm: "\<And>i. i \<in> set ?recs \<Longrightarrow> name (fieldEntities s ! i) = ?p"
    using initialValueRecords_member [of _ s ?p] by simp
  show ?thesis
  proof (cases "getInitialValue s ?p = Undefined \<and> length ?recs = 1")
    case False
    then have "\<forall>i \<in> set ?recs. \<not> fieldInitialValueApplies ?s1 i" using el by auto
    then have "foldl ?step (store ?s1, generation ?s1) ?recs = (store ?s1, generation ?s1)"
      by (rule foldl_if_none)
    with st have "getFieldValue (resetFields (Some [nm]) s) ?p = getInitialValue s ?p"
      by (simp add: getFieldValue_def getValue_setValue)
    moreover from False have "getInitialValue s ?p = Undefined \<Longrightarrow>
        (case ?recs of [r] \<Rightarrow> initialValue (fieldEntities s ! r) | _ \<Rightarrow> Undefined) = Undefined"
      by (auto split: list.splits)
    ultimately show ?thesis by simp
  next
    case True
    then obtain r where r: "?recs = [r]" by (cases ?recs) auto
    with el [of r] True have "fieldInitialValueApplies ?s1 r" by simp
    with st r nm [of r] have "store (resetFields (Some [nm]) s) =
        setValue (generation ?s1) (store ?s1) ?p (initialValue (fieldEntities s ! r))" by simp
    with r True show ?thesis by (simp add: getFieldValue_def getValue_setValue)
  qed
qed

lemma reset_all_store:
  "store (resetFields None s) =
     fst (foldl (\<lambda>(st, g) i. if fieldInitialValueApplies s i
                    then (setValue g st (name (fieldEntities s ! i)) (initialValue (fieldEntities s ! i)),
                          Suc g)
                    else (st, g))
       (setValues (generation s) (emptyObject (Made (generation s) [])) (initialValues s),
        Suc (generation s))
       (pureEntities s))"
proof -
  let ?s1 = "updateStore (setValues (generation s) (emptyObject (Made (generation s) [])) (initialValues s)) s"
  have "store (resetFields None s) = store (foldl (resetWithField False) ?s1 (pureEntities ?s1))"
    by (simp add: resetFields_def resetWithFieldInitialValue_def Let_def)
  also have "\<dots> = fst (foldl (\<lambda>(st, g) i. if fieldInitialValueApplies ?s1 i
                    then (setValue g st (name (fieldEntities ?s1 ! i)) (initialValue (fieldEntities ?s1 ! i)),
                          Suc g)
                    else (st, g)) (store ?s1, generation ?s1) (pureEntities ?s1))"
    unfolding foldl_resetWithField_store [of "pureEntities ?s1" ?s1 ?s1, OF subset_refl refl refl, symmetric]
    by simp
  also have "\<dots> = fst (foldl (\<lambda>(st, g) i. if fieldInitialValueApplies s i
                    then (setValue g st (name (fieldEntities s ! i)) (initialValue (fieldEntities s ! i)),
                          Suc g)
                    else (st, g))
       (setValues (generation s) (emptyObject (Made (generation s) [])) (initialValues s),
        Suc (generation s))
       (pureEntities s))"
  proof -
    have "(\<lambda>(st, g) i. if fieldInitialValueApplies ?s1 i
                    then (setValue g st (name (fieldEntities ?s1 ! i)) (initialValue (fieldEntities ?s1 ! i)),
                          Suc g)
                    else (st, g)) =
          (\<lambda>(st, g) i. if fieldInitialValueApplies s i
                    then (setValue g st (name (fieldEntities s ! i)) (initialValue (fieldEntities s ! i)),
                          Suc g)
                    else (st, g))"
      by (auto simp: fun_eq_iff)
    then show ?thesis by simp
  qed
  finally show ?thesis .
qed

lemma reset_all_ignores_store:
  "store (resetFields None (s\<lparr>store := x\<rparr>)) = store (resetFields None s)"
proof -
  have "(\<lambda>(st, g) i. if fieldInitialValueApplies s i
                    then (setValue g st (name (fieldEntities (s\<lparr>store := x\<rparr>) ! i))
                            (initialValue (fieldEntities (s\<lparr>store := x\<rparr>) ! i)),
                          Suc g)
                    else (st, g)) =
        (\<lambda>(st, g) i. if fieldInitialValueApplies s i
                    then (setValue g st (name (fieldEntities s ! i)) (initialValue (fieldEntities s ! i)),
                          Suc g)
                    else (st, g))"
    by (auto simp: fun_eq_iff)
  then show ?thesis
    unfolding reset_all_store by simp
qed

lemma unregister_resets_to_form_initial:
  assumes "\<not> isMergedPreserve s fp" and "\<not> truthy lf"
    and "name (fieldEntities s ! i) \<noteq> []"
    and "list_all (\<lambda>fld. name fld \<noteq> name (fieldEntities s ! i))
           (take i (fieldEntities s) @ drop (Suc i) (fieldEntities s))"
  shows "getFieldValue (unregisterField i lf fp sub s) (name (fieldEntities s ! i)) =
           getInitialValue s (name (fieldEntities s ! i))"
proof -
  let ?s1 = "s\<lparr>fieldEntities := take i (fieldEntities s) @ drop (Suc i) (fieldEntities s)\<rparr>"
  have pres: "\<not> isMergedPreserve ?s1 fp" using assms(1) by (auto simp add: isMergedPreserve_def split: option.splits)
  have iv: "getInitialValue ?s1 = getInitialValue s" by (simp add: getInitialValue_def Let_def fun_eq_iff)
  have others: "list_all (\<lambda>fld. \<not> matchNamePath (name fld) (name (fieldEntities s ! i))) (fieldEntities ?s1)"
    using assms(4) by (simp add: matchNamePath_def)
  show ?thesis
    using pres assms(2,3) others
    by (simp add: unregisterField_def Let_def iv getFieldValue_def getValue_setValue)
qed

text \<open>
  C5, as the code has it. Resetting a path yields the initial value of the form at the path
  if there is one; otherwise the \<open>initialValue\<close> of the field at the path, if exactly
  one registered field at the path declares one; otherwise \<open>undefined\<close>. Resetting the
  whole form rebuilds the store from the initial values of the form and then writes the
  initial values of the fields that this rule admits; the live store has no influence. The
  reset at the unregistration of a field that is not preserved (not a list item, no other
  field at its path) installs the initial value of the form, whatever the field declares.
\<close>

theorem reset_restores_initial_values:
  "getFieldValue (resetFields (Some [nm]) s) (getNamePath nm) =
     (if getInitialValue s (getNamePath nm) \<noteq> Undefined then getInitialValue s (getNamePath nm)
      else case initialValueRecords s (getNamePath nm) of
             [r] \<Rightarrow> initialValue (fieldEntities s ! r)
           | _ \<Rightarrow> Undefined)
   \<and> store (resetFields None s) =
       fst (foldl (\<lambda>(st, g) i. if fieldInitialValueApplies s i
                      then (setValue g st (name (fieldEntities s ! i)) (initialValue (fieldEntities s ! i)),
                            Suc g)
                      else (st, g))
         (setValues (generation s) (emptyObject (Made (generation s) [])) (initialValues s),
          Suc (generation s))
         (pureEntities s))
   \<and> store (resetFields None (s\<lparr>store := x\<rparr>)) = store (resetFields None s)
   \<and> (\<not> isMergedPreserve s fp \<and> \<not> truthy lf \<and> name (fieldEntities s ! i) \<noteq> [] \<and>
        list_all (\<lambda>fld. name fld \<noteq> name (fieldEntities s ! i))
          (take i (fieldEntities s) @ drop (Suc i) (fieldEntities s)) \<longrightarrow>
        getFieldValue (unregisterField i lf fp sub s) (name (fieldEntities s ! i)) =
          getInitialValue s (name (fieldEntities s ! i)))"
  using reset_single_path [where nm = nm and s = s] reset_all_store [where s = s]
    reset_all_ignores_store [where s = s and x = x]
    unregister_resets_to_form_initial [where s = s and fp = fp and lf = lf and i = i and sub = sub]
  by blast

lemmas reset_example_defs =
  conflictForm_def declaredForm_def exampleForm_def exampleField_def objectWith_def emptyObject_def setValue_def
  getFieldValue_def getInitialValue_def initialValueRecords_def pureEntities_def
  isMergedPreserve_def truthy_def

theorem reset_restores_initial_values_witness:
  "getFieldValue (resetFields (Some [Scalar (Name ''a'')]) declaredForm) [Name ''a''] = Atom 2
   \<and> getFieldValue (unregisterField 0 None (Some False) [Name ''a''] declaredForm) [Name ''a''] = Undefined"
  using reset_restores_initial_values [where nm = "Scalar (Name ''a'')" and s = declaredForm
          and fp = "Some False" and lf = None and i = 0 and sub = "[Name ''a'']"]
  by (simp add: reset_example_defs)

text \<open>
  C5 as stated fails: when the field declares an initial value and the form declares another
  one at its path, the reset yields the one of the form.
\<close>

theorem form_initial_value_wins:
  "initialValue (fieldEntities conflictForm ! 0) = Atom 2
   \<and> name (fieldEntities conflictForm ! 0) = [Name ''a'']
   \<and> getInitialValue conflictForm [Name ''a''] = Atom 1
   \<and> getFieldValue (resetFields (Some [Scalar (Name ''a'')]) conflictForm) [Name ''a''] = Atom 1"
  by (simp add: reset_example_defs resetFields_def resetWithFieldInitialValue_def resetWithField_def
        updateStore_def emit_def notifyObservers_def notifyWatch_def Let_def)

subsection \<open>The end of a validation\<close>

lemma onStoreChange_ValidateFinish:
  "onStoreChange fresh prev npl ValidateFinish st f = reRender f \<or>
   onStoreChange fresh prev npl ValidateFinish st f = f"
  by (simp add: onStoreChange_def Let_def isExternalValueUpdate_def)

lemma onStoreChange_ValidateFinish_meta [simp]:
  "name (onStoreChange fresh prev npl ValidateFinish st f) = name f"
  "touched (onStoreChange fresh prev npl ValidateFinish st f) = touched f"
  "validatePromise (onStoreChange fresh prev npl ValidateFinish st f) = validatePromise f"
  "fieldErrors (onStoreChange fresh prev npl ValidateFinish st f) = fieldErrors f"
  "fieldWarnings (onStoreChange fresh prev npl ValidateFinish st f) = fieldWarnings f"
  using onStoreChange_ValidateFinish [of fresh prev npl st f] by auto

lemma notifyObservers_ValidateFinish_nth:
  "i < length (fieldEntities s) \<Longrightarrow>
   name (fieldEntities (notifyObservers prev npl ValidateFinish s) ! i) = name (fieldEntities s ! i) \<and>
   touched (fieldEntities (notifyObservers prev npl ValidateFinish s) ! i) = touched (fieldEntities s ! i) \<and>
   validatePromise (fieldEntities (notifyObservers prev npl ValidateFinish s) ! i) = validatePromise (fieldEntities s ! i) \<and>
   fieldErrors (fieldEntities (notifyObservers prev npl ValidateFinish s) ! i) = fieldErrors (fieldEntities s ! i) \<and>
   fieldWarnings (fieldEntities (notifyObservers prev npl ValidateFinish s) ! i) = fieldWarnings (fieldEntities s ! i)"
  by (simp add: notifyObservers_fields)

lemma getFields_notify_ValidateFinish:
  "getFields (notifyObservers prev npl ValidateFinish s) = getFields s"
proof -
  let ?s' = "notifyObservers prev npl ValidateFinish s"
  have pure: "pureEntities ?s' = pureEntities s"
    unfolding pureEntities_def
    by (rule filter_cong) (simp_all add: notifyObservers_ValidateFinish_nth)
  show ?thesis
    unfolding getFields_def pure
    by (rule map_cong)
       (auto simp: pureEntities_def notifyObservers_ValidateFinish_nth Let_def
          getFieldValue_def isFieldValidating_def)
qed

lemma triggerOnFieldsChange_trace:
  "trace (triggerOnFieldsChange npl (Some es) s) =
     trace s @ (if onFieldsChange s
                then [OnFieldsChange
                        (filter (\<lambda>fd. containsNamePath npl (getNamePath (fd_name fd)))
                           (fillErrors es (getFields s)))
                        (fillErrors es (getFields s))]
                else [])"
  by (simp add: triggerOnFieldsChange_def Let_def)

lemma validateFinished_trace:
  "trace (validateFinished results s) =
     trace s
     @ (if subscribable s
        then map (\<lambda>i. StoreChange i (Some (map fe_name results)) ValidateFinish)
               [0..<length (fieldEntities s)]
        else [ForceRootUpdate])
     @ (if onFieldsChange s
        then [OnFieldsChange
                (filter (\<lambda>fd. containsNamePath (map fe_name results) (getNamePath (fd_name fd)))
                   (fillErrors results (getFields s)))
                (fillErrors results (getFields s))]
        else [])"
  by (simp add: validateFinished_def Let_def triggerOnFieldsChange_trace notifyObservers_trace
        getFields_notify_ValidateFinish)

text \<open>
  C10. When the summary promise of a call of \<open>validateFields\<close> settles, resolved or
  rejected, the registered fields are notified with \<open>validateFinish\<close> and
  \<open>onFieldsChange\<close> is called with the results of that call, whatever
  \<open>lastValidatePromise\<close> is; the comparison with \<open>lastValidatePromise\<close> decides only
  what the caller's promise settles to.
\<close>

theorem validateFinish_broadcast_is_not_gated:
  "trace (fst (summarySettled task (Resolved results) s)) =
     trace s
     @ (if subscribable s
        then map (\<lambda>i. StoreChange i (Some (map fe_name results)) ValidateFinish)
               [0..<length (fieldEntities s)]
        else [ForceRootUpdate])
     @ (if onFieldsChange s
        then [OnFieldsChange
                (filter (\<lambda>fd. containsNamePath (map fe_name results) (getNamePath (fd_name fd)))
                   (fillErrors results (getFields s)))
                (fillErrors results (getFields s))]
        else [])
   \<and> fst (summarySettled task (Rejected results) s) = fst (summarySettled task (Resolved results) s)
   \<and> (lastValidatePromise s \<noteq> Some (summaryPromise task) \<longrightarrow>
        snd (summarySettled task (Resolved results) s) =
          Some (RejectedEntity (getFieldsValue s (Some (taskNamePathList task))) [] True))
   \<and> (lastValidatePromise s = Some (summaryPromise task) \<longrightarrow>
        snd (summarySettled task (Resolved results) s) =
          Some (ResolvedValues (getFieldsValue s (Some (taskNamePathList task)))))"
  using returnPromise_superseded(1) [of s task results] returnPromise_latest(1) [of s task results]
  by (simp add: summarySettled_def promiseValue_def validateFinished_trace)

theorem validateFinish_broadcast_is_not_gated_witness:
  "trace (fst (summarySettled (snd (validateFields None noOptions formWithRules))
                (Resolved [\<lparr>fe_name = [Name ''a''], fe_errors = [], fe_warnings = []\<rparr>])
                (fst (validateFields None noOptions (fst (validateFields None noOptions formWithRules)))))) =
     [StoreChange 0 (Some [[Name ''a'']]) ValidateFinish]
   \<and> snd (summarySettled (snd (validateFields None noOptions formWithRules))
                (Resolved [\<lparr>fe_name = [Name ''a''], fe_errors = [], fe_warnings = []\<rparr>])
                (fst (validateFields None noOptions (fst (validateFields None noOptions formWithRules))))) =
     Some (RejectedEntity
             (getFieldsValue (fst (validateFields None noOptions (fst (validateFields None noOptions formWithRules))))
                (Some [[Name ''a'']])) [] True)"
proof -
  have t1: "snd (validateFields None noOptions formWithRules) =
      \<lparr>summaryPromise = 1, taskNamePathList = [[Name ''a'']],
       promiseList = [\<lparr>ve_field = 0, ve_name = [Name ''a''], ve_rootPromise = 0, ve_value = Undefined\<rparr>]\<rparr>"
    by (simp add: validate_example_defs emptyObject_def)
  have s2: "lastValidatePromise (fst (validateFields None noOptions (fst (validateFields None noOptions formWithRules)))) = Some 3"
    "trace (fst (validateFields None noOptions (fst (validateFields None noOptions formWithRules)))) = []"
    "subscribable (fst (validateFields None noOptions (fst (validateFields None noOptions formWithRules))))"
    "\<not> onFieldsChange (fst (validateFields None noOptions (fst (validateFields None noOptions formWithRules))))"
    "length (fieldEntities (fst (validateFields None noOptions (fst (validateFields None noOptions formWithRules))))) = 1"
    by (simp_all add: validate_example_defs emptyObject_def)
  show ?thesis
    using validateFinish_broadcast_is_not_gated
      [of "snd (validateFields None noOptions formWithRules)"
          "[\<lparr>fe_name = [Name ''a''], fe_errors = [], fe_warnings = []\<rparr>]"
          "fst (validateFields None noOptions (fst (validateFields None noOptions formWithRules)))"]
    by (simp add: t1 s2)
qed

end
